theory Spec2Isabelle
  imports Main "HOL-Library.AList"
begin

section \<open>Python primitives used by the parser\<close>

text \<open>
  A Python \<open>str\<close> is modelled as a \<open>string\<close> whose characters are the code points below
  256.  \<open>is_space\<close> is \<open>str.isspace\<close> on one character, which is also the class \<open>\s\<close> of
  the \<open>re\<close> module on such code points; \<open>is_word\<close> is the class \<open>\w\<close>.
\<close>

definition is_space :: "char \<Rightarrow> bool" where
  "is_space c = (c \<in> set [CHR 0x09, CHR 0x0A, CHR 0x0B, CHR 0x0C, CHR 0x0D,
                            CHR 0x1C, CHR 0x1D, CHR 0x1E, CHR 0x1F, CHR 0x20,
                            CHR 0x85, CHR 0xA0])"

definition is_word :: "char \<Rightarrow> bool" where
  "is_word c = (let n = (of_char c :: nat) in
      (48 \<le> n \<and> n \<le> 57) \<or> (65 \<le> n \<and> n \<le> 90) \<or> n = 95 \<or> (97 \<le> n \<and> n \<le> 122) \<or>
      n = 170 \<or> n = 178 \<or> n = 179 \<or> n = 181 \<or> n = 185 \<or> n = 186 \<or>
      (188 \<le> n \<and> n \<le> 190) \<or> (192 \<le> n \<and> n \<le> 214) \<or> (216 \<le> n \<and> n \<le> 246) \<or>
      248 \<le> n)"

text \<open>\<open>s.strip()\<close>, \<open>s.startswith(p)\<close>, \<open>p in s\<close>, \<open>s.count(c)\<close>.\<close>

definition strip :: "string \<Rightarrow> string" where
  "strip s = rev (dropWhile is_space (rev (dropWhile is_space s)))"

definition startswith :: "string \<Rightarrow> string \<Rightarrow> bool" where
  "startswith s p = (take (length p) s = p)"

fun contains :: "string \<Rightarrow> string \<Rightarrow> bool" where
  "contains [] p = (p = [])"
| "contains (c # cs) p = (startswith (c # cs) p \<or> contains cs p)"

definition count_char :: "char \<Rightarrow> string \<Rightarrow> int" where
  "count_char c s = int (length (filter (\<lambda>x. x = c) s))"

text \<open>
  \<open>s.find(c)\<close> and \<open>s.rfind(c)\<close> for a one-character needle: the index of the first
  (last) occurrence, \<open>-1\<close> when there is none.
\<close>

fun find_from :: "char \<Rightarrow> int \<Rightarrow> string \<Rightarrow> int" where
  "find_from c i [] = -1"
| "find_from c i (x # xs) = (if x = c then i else find_from c (i + 1) xs)"

definition find_char :: "char \<Rightarrow> string \<Rightarrow> int" where
  "find_char c s = find_from c 0 s"

definition rfind_char :: "char \<Rightarrow> string \<Rightarrow> int" where
  "rfind_char c s =
     (let r = find_from c 0 (rev s) in if r = -1 then -1 else int (length s) - 1 - r)"

text \<open>
  The slice \<open>s[lo:hi]\<close>: a negative bound counts from the end, and both bounds are
  clamped to the string, as Python does.
\<close>

definition slice_bound :: "nat \<Rightarrow> int \<Rightarrow> nat" where
  "slice_bound n i = (if i < 0 then nat (max 0 (int n + i)) else min n (nat i))"

definition py_slice :: "string \<Rightarrow> int \<Rightarrow> int \<Rightarrow> string" where
  "py_slice s lo hi =
     (let a = slice_bound (length s) lo; b = slice_bound (length s) hi
      in take (b - a) (drop a s))"

text \<open>\<open>s.split()\<close> (runs of whitespace separate, no empty token) and \<open>s.split(d)\<close>.\<close>

fun split_ws_aux :: "string \<Rightarrow> string \<Rightarrow> string list" where
  "split_ws_aux cur [] = (if cur = [] then [] else [rev cur])"
| "split_ws_aux cur (c # cs) =
     (if is_space c then (if cur = [] then split_ws_aux [] cs else rev cur # split_ws_aux [] cs)
      else split_ws_aux (c # cur) cs)"

definition split_ws :: "string \<Rightarrow> string list" where
  "split_ws s = split_ws_aux [] s"

fun split_on_aux :: "char \<Rightarrow> string \<Rightarrow> string \<Rightarrow> string list" where
  "split_on_aux d cur [] = [rev cur]"
| "split_on_aux d cur (c # cs) =
     (if c = d then rev cur # split_on_aux d [] cs else split_on_aux d (c # cur) cs)"

definition split_on :: "char \<Rightarrow> string \<Rightarrow> string list" where
  "split_on d s = split_on_aux d [] s"

text \<open>
  \<open>s.replace(old, new)\<close> for a non-empty \<open>old\<close>: the occurrences are replaced from left
  to right without overlap.
\<close>

function py_replace :: "string \<Rightarrow> string \<Rightarrow> string \<Rightarrow> string" where
  "py_replace old new s =
     (if old = [] \<or> s = [] then s
      else if startswith s old then new @ py_replace old new (drop (length old) s)
      else hd s # py_replace old new (tl s))"
  by pat_completeness auto
termination
  by (relation "measure (\<lambda>(old, new, s). length s)") auto

declare py_replace.simps [simp del]

text \<open>A Python \<open>dict\<close> keeps its keys in insertion order; assigning to a key that is
  present replaces the value in place.  \<open>AList.update\<close> is exactly that.\<close>

type_synonym ('k, 'v) pydict = "('k \<times> 'v) list"

datatype py_error = IndexError | KeyError

section \<open>Regular expressions\<close>

text \<open>
  The patterns of the source are matched by a backtracking matcher.  \<open>rmatch r s\<close> lists
  every way \<open>r\<close> matches a prefix of \<open>s\<close>, as (captured groups, rest of the input), in
  the order in which a backtracking engine tries them: a greedy repetition tries one more
  iteration before it tries to stop, an alternation tries its left branch first.  The head
  of the list is the match that \<open>re.match\<close> reports.  None of the repeated sub-patterns of
  the source matches the empty string.
\<close>

datatype rx =
    Eps
  | Lit char
  | Cls "char \<Rightarrow> bool"
  | Seq rx rx
  | Alt rx rx
  | Star rx
  | Grp rx

type_synonym rresult = "string list \<times> string"

primrec star_n :: "nat \<Rightarrow> (string \<Rightarrow> rresult list) \<Rightarrow> string \<Rightarrow> rresult list" where
  "star_n 0 f s = [([], s)]"
| "star_n (Suc n) f s =
     concat (map (\<lambda>(c1, s1).
        if length s1 < length s then map (\<lambda>(c2, s2). (c1 @ c2, s2)) (star_n n f s1) else [])
        (f s)) @ [([], s)]"

primrec rmatch :: "rx \<Rightarrow> string \<Rightarrow> rresult list" where
  "rmatch Eps s = [([], s)]"
| "rmatch (Lit c) s = (case s of [] \<Rightarrow> [] | x # xs \<Rightarrow> if x = c then [([], xs)] else [])"
| "rmatch (Cls p) s = (case s of [] \<Rightarrow> [] | x # xs \<Rightarrow> if p x then [([], xs)] else [])"
| "rmatch (Seq a b) s =
     concat (map (\<lambda>(c1, s1). map (\<lambda>(c2, s2). (c1 @ c2, s2)) (rmatch b s1)) (rmatch a s))"
| "rmatch (Alt a b) s = rmatch a s @ rmatch b s"
| "rmatch (Star a) s = star_n (length s) (rmatch a) s"
| "rmatch (Grp a) s = map (\<lambda>(c, s1). (take (length s - length s1) s # c, s1)) (rmatch a s)"

definition Plus :: "rx \<Rightarrow> rx" where
  "Plus r = Seq r (Star r)"

definition Opt :: "rx \<Rightarrow> rx" where
  "Opt r = Alt r Eps"

definition lit :: "string \<Rightarrow> rx" where
  "lit s = foldr (\<lambda>c r. Seq (Lit c) r) s Eps"

record rmatch_obj =
  group0 :: string
  groups :: "string list"

text \<open>
  \<open>re.match(r, s)\<close>, \<open>re.search(r, s)\<close> and \<open>re.finditer(r, s)\<close>.  \<open>finditer\<close> scans from
  left to right and resumes after each match; the patterns it is used with consume at
  least two characters, so its branch for an empty match is never taken.
\<close>

definition re_match :: "rx \<Rightarrow> string \<Rightarrow> rmatch_obj option" where
  "re_match r s =
     (case rmatch r s of
        [] \<Rightarrow> None
      | (caps, rest) # _ \<Rightarrow> Some \<lparr>group0 = take (length s - length rest) s, groups = caps\<rparr>)"

fun re_search :: "rx \<Rightarrow> string \<Rightarrow> rmatch_obj option" where
  "re_search r [] = re_match r []"
| "re_search r (c # cs) =
     (case re_match r (c # cs) of Some m \<Rightarrow> Some m | None \<Rightarrow> re_search r cs)"

function finditer :: "rx \<Rightarrow> string \<Rightarrow> rmatch_obj list" where
  "finditer r s =
     (if s = [] then []
      else case re_match r s of
             None \<Rightarrow> finditer r (tl s)
           | Some m \<Rightarrow>
               if group0 m = [] then finditer r (tl s)
               else m # finditer r (drop (length (group0 m)) s))"
  by pat_completeness auto
termination
  by (relation "measure (\<lambda>(r, s). length s)") auto

declare finditer.simps [simp del]

definition ws :: rx where
  "ws = Cls is_space"

definition word :: rx where
  "word = Cls is_word"

section \<open>Block segmenter: \<open>parse_perl_file_to_blocks\<close>\<close>

datatype block_type = global_scope | package

record block =
  btype :: block_type
  bname :: "string option"
  blines :: "string list"

text \<open>The pattern \<^verbatim>\<open>^\s*package\s+([^;]+);?\<close>.\<close>

definition pkg_rx :: rx where
  "pkg_rx = Seq (Star ws) (Seq (lit ''package'') (Seq (Plus ws)
              (Seq (Grp (Plus (Cls (\<lambda>c. c \<noteq> CHR '';'')))) (Opt (Lit (CHR '';''))))))"

text \<open>\<open>any(l.strip() for l in lines)\<close>.\<close>

definition any_nonblank :: "string list \<Rightarrow> bool" where
  "any_nonblank ls = list_ex (\<lambda>l. strip l \<noteq> []) ls"

definition is_shebang :: "string \<Rightarrow> bool" where
  "is_shebang line = startswith (strip line) ''#!''"

definition pkg_match :: "string \<Rightarrow> rmatch_obj option" where
  "pkg_match line = re_match pkg_rx (strip line)"

text \<open>
  One iteration of the loop over the lines; the state is \<open>(blocks, current_block)\<close>.
  The source also sets a flag \<open>inside_package\<close> that nothing reads.
\<close>

definition seg_step :: "block list \<times> block \<Rightarrow> string \<Rightarrow> block list \<times> block" where
  "seg_step st line =
     (case st of (blocks, current_block) \<Rightarrow>
        if is_shebang line then (blocks, current_block)
        else (case pkg_match line of
               Some m \<Rightarrow>
                 (if any_nonblank (blines current_block) then blocks @ [current_block] else blocks,
                  \<lparr>btype = package, bname = Some (strip (groups m ! 0)), blines = []\<rparr>)
             | None \<Rightarrow> (blocks, current_block\<lparr>blines := blines current_block @ [line]\<rparr>)))"

definition segment_lines :: "string list \<Rightarrow> block list" where
  "segment_lines lines =
     (case foldl seg_step ([], \<lparr>btype = global_scope, bname = None, blines = []\<rparr>) lines of
        (blocks, current_block) \<Rightarrow>
          if any_nonblank (blines current_block) then blocks @ [current_block] else blocks)"

text \<open>
  The file system is a partial map from paths to the lines \<open>readlines\<close> returns; a file
  that cannot be read is \<open>None\<close>, and the source then returns no block.
\<close>

definition parse_perl_file_to_blocks :: "(string \<rightharpoonup> string list) \<Rightarrow> string \<Rightarrow> block list" where
  "parse_perl_file_to_blocks fs file_path =
     (case fs file_path of None \<Rightarrow> [] | Some lines \<Rightarrow> segment_lines lines)"

section \<open>Block content classifier: \<open>parse_block_content\<close>\<close>

record use_statement =
  us_module :: string
  us_source_file :: "string option"

record sub_definition =
  sd_name :: string
  sd_parameters :: "string list"
  sd_body :: string
  sd_package :: "string option"
  sd_full_name :: string

text \<open>
  The patterns \<^verbatim>\<open>^\s*(use|no)\s+([^;]+);?\<close>, \<^verbatim>\<open>sub\s+([^\s{]+)\<close> and
  \<^verbatim>\<open>my\s*\(([^)]+)\)\s*=\s*@_\<close>.
\<close>

definition use_rx :: rx where
  "use_rx = Seq (Star ws) (Seq (Grp (Alt (lit ''use'') (lit ''no''))) (Seq (Plus ws)
              (Seq (Grp (Plus (Cls (\<lambda>c. c \<noteq> CHR '';'')))) (Opt (Lit (CHR '';''))))))"

definition sub_rx :: rx where
  "sub_rx = Seq (lit ''sub'') (Seq (Plus ws)
              (Grp (Plus (Cls (\<lambda>c. \<not> is_space c \<and> c \<noteq> CHR ''{'')))))"

definition param_rx :: rx where
  "param_rx = Seq (lit ''my'') (Seq (Star ws) (Seq (Lit (CHR ''('')) (Seq
                (Grp (Plus (Cls (\<lambda>c. c \<noteq> CHR '')''))))
                (Seq (Lit (CHR '')'')) (Seq (Star ws) (Seq (Lit (CHR ''=''))
                (Seq (Star ws) (lit ''@_''))))))))"

definition use_match :: "string \<Rightarrow> rmatch_obj option" where
  "use_match line = re_match use_rx (strip line)"

definition sub_match :: "string \<Rightarrow> rmatch_obj option" where
  "sub_match line = re_match sub_rx (strip line)"

text \<open>\<open>line.count('{') - line.count('}')\<close>.\<close>

definition brace_delta :: "string \<Rightarrow> int" where
  "brace_delta line = count_char (CHR ''{'') line - count_char (CHR ''}'') line"

text \<open>
  The inner \<open>while brace_count > 0 and i + 1 < len(lines)\<close>: \<open>scan_braces lines i b\<close> is
  the number of further lines the loop consumes when it starts at index \<open>i\<close> with the
  counter at \<open>b\<close>, so the loop leaves the cursor at \<open>i + scan_braces lines i b\<close>.
\<close>

function scan_braces :: "string list \<Rightarrow> nat \<Rightarrow> int \<Rightarrow> nat" where
  "scan_braces lines i brace_count =
     (if brace_count > 0 \<and> i + 1 < length lines
      then Suc (scan_braces lines (i + 1) (brace_count + brace_delta (lines ! (i + 1))))
      else 0)"
  by pat_completeness auto
termination
  by (relation "measure (\<lambda>(lines, i, b). length lines - i)") auto

declare scan_braces.simps [simp del]

text \<open>The body of a definition from the text of its captured lines.\<close>

definition extract_body :: "string \<Rightarrow> string" where
  "extract_body full_sub =
     (let first_brace = find_char (CHR ''{'') full_sub;
          last_brace = rfind_char (CHR ''}'') full_sub
      in if first_brace \<noteq> -1 then strip (py_slice full_sub (first_brace + 1) last_brace)
         else [])"

definition extract_parameters :: "string \<Rightarrow> string list" where
  "extract_parameters body =
     (case re_search param_rx body of
        Some m \<Rightarrow> map strip (split_on (CHR '','') (groups m ! 0))
      | None \<Rightarrow> [])"

text \<open>\<open>f"{package_name}::{sub_name}" if package_name else sub_name\<close>: a package name
  that is \<open>None\<close> or empty gives the bare name.\<close>

definition full_name_of :: "string option \<Rightarrow> string \<Rightarrow> string" where
  "full_name_of package_name sub_name =
     (case package_name of
        None \<Rightarrow> sub_name
      | Some p \<Rightarrow> if p = [] then sub_name else p @ ''::'' @ sub_name)"

definition make_sub :: "string option \<Rightarrow> string \<Rightarrow> string list \<Rightarrow> sub_definition" where
  "make_sub package_name sub_name sub_lines =
     (let body = extract_body (concat sub_lines)
      in \<lparr>sd_name = sub_name, sd_parameters = extract_parameters body, sd_body = body,
          sd_package = package_name, sd_full_name = full_name_of package_name sub_name\<rparr>)"

record block_content =
  use_statements :: "use_statement list"
  methods :: "sub_definition list"
  execution_lines :: "string list"

text \<open>\<open>opens_sub line\<close> is the test that sends a line to the brace-balanced extraction.\<close>

definition opens_sub :: "string \<Rightarrow> bool" where
  "opens_sub line =
     (startswith (strip line) ''sub '' \<and> sub_match line \<noteq> None \<and> CHR ''{'' \<in> set line)"

function parse_block_loop ::
  "string option \<Rightarrow> string list \<Rightarrow> nat \<Rightarrow> block_content \<Rightarrow> block_content" where
  "parse_block_loop package_name lines i st =
     (if i < length lines then
        (case use_match (lines ! i) of
           Some m \<Rightarrow>
             parse_block_loop package_name lines (i + 1)
               (st\<lparr>use_statements := use_statements st @
                     [\<lparr>us_module = strip (groups m ! 1), us_source_file = None\<rparr>]\<rparr>)
         | None \<Rightarrow>
             (if opens_sub (lines ! i) then
                parse_block_loop package_name lines
                  (i + scan_braces lines i (brace_delta (lines ! i)) + 1)
                  (st\<lparr>methods := methods st @
                     [make_sub package_name (groups (the (sub_match (lines ! i))) ! 0)
                        (take (scan_braces lines i (brace_delta (lines ! i)) + 1) (drop i lines))]\<rparr>)
              else
                parse_block_loop package_name lines (i + 1)
                  (st\<lparr>execution_lines := execution_lines st @ [lines ! i]\<rparr>)))
      else st)"
  by pat_completeness auto
termination
  by (relation "measure (\<lambda>(p, lines, i, st). length lines - i)") auto

declare parse_block_loop.simps [simp del]

definition parse_block_content :: "string list \<Rightarrow> string option \<Rightarrow> block_content" where
  "parse_block_content lines package_name =
     parse_block_loop package_name lines 0
       \<lparr>use_statements = [], methods = [], execution_lines = []\<rparr>"

section \<open>File AST builder: \<open>create_ast_from_file\<close> and \<open>process_single_file\<close>\<close>

record script_block =
  sb_body :: string
  sb_source_file :: string

record package_decl =
  pd_name :: string
  pd_use_statements :: "use_statement list"
  pd_methods :: "sub_definition list"
  pd_script_execution :: "script_block option"
  pd_source_file :: string

text \<open>The key \<open>functions\<close> of the global scope is present only when the global block has
  definitions.\<close>

record global_scope_block =
  gs_body :: string
  gs_source_file :: string
  gs_functions :: "sub_definition list option"

record perl_file =
  pf_source_file :: string
  pf_use_statements :: "use_statement list"
  pf_packages :: "package_decl list"
  pf_global_scope :: "global_scope_block option"

definition has_code :: "string list \<Rightarrow> bool" where
  "has_code ls = list_ex (\<lambda>l. strip l \<noteq> [] \<and> \<not> startswith (strip l) ''#'') ls"

definition ast_step :: "string \<Rightarrow> perl_file \<Rightarrow> block \<Rightarrow> perl_file" where
  "ast_step path ast b =
     (let c = parse_block_content (blines b) (bname b);
          uses = map (\<lambda>u. u\<lparr>us_source_file := Some path\<rparr>) (use_statements c)
      in case btype b of
           package \<Rightarrow>
             ast\<lparr>pf_packages := pf_packages ast @
               [\<lparr>pd_name = (case bname b of Some n \<Rightarrow> n | None \<Rightarrow> []),
                 pd_use_statements = uses,
                 pd_methods = methods c,
                 pd_script_execution =
                   (if has_code (execution_lines c)
                    then Some \<lparr>sb_body = strip (concat (execution_lines c)), sb_source_file = path\<rparr>
                    else None),
                 pd_source_file = path\<rparr>]\<rparr>
         | global_scope \<Rightarrow>
             ast\<lparr>pf_use_statements := pf_use_statements ast @ uses,
                 pf_global_scope :=
                   Some \<lparr>gs_body = strip (concat (execution_lines c)), gs_source_file = path,
                         gs_functions = (if methods c = [] then None else Some (methods c))\<rparr>\<rparr>)"

definition create_ast_from_file :: "(string \<rightharpoonup> string list) \<Rightarrow> string \<Rightarrow> perl_file option" where
  "create_ast_from_file fs path =
     (let raw_blocks = parse_perl_file_to_blocks fs path
      in if raw_blocks = [] then None
         else Some (foldl (ast_step path)
                      \<lparr>pf_source_file = path, pf_use_statements = [], pf_packages = [],
                       pf_global_scope = None\<rparr> raw_blocks))"

text \<open>
  \<open>process_single_file\<close> wraps the builder in \<open>try\<close>; nothing in the builder raises (a
  file that cannot be read already gave no block), so only the test for \<open>None\<close> remains.
\<close>

record file_result =
  fr_file :: string
  fr_status :: string
  fr_error :: "string option"
  fr_ast :: "perl_file option"

definition process_single_file :: "(string \<rightharpoonup> string list) \<Rightarrow> string \<Rightarrow> file_result" where
  "process_single_file fs path =
     (case create_ast_from_file fs path of
        None \<Rightarrow> \<lparr>fr_file = path, fr_status = ''failed'',
                  fr_error = Some ''Failed to create AST'', fr_ast = None\<rparr>
      | Some ast \<Rightarrow> \<lparr>fr_file = path, fr_status = ''success'', fr_error = None,
                      fr_ast = Some ast\<rparr>)"

section \<open>Cross-file call resolver: \<open>analyze_cross_file_calls\<close>\<close>

record function_info =
  fi_file :: string
  fi_package :: string
  fi_method_name :: string
  fi_short_call_patterns :: "string list"

type_synonym registry = "(string, function_info) pydict"

record cross_file_call =
  caller_file :: string
  caller_package :: string
  caller_method :: "string option"
  target_file :: string
  target_package :: string
  target_method :: string
  target_full_name :: string
  call_pattern :: string
  call_type :: string

text \<open>
  First pass: every method of every package of every file is written into the
  dictionary \<open>global_functions\<close> under its \<open>full_name\<close>, in processing order.  (The source
  also fills a dictionary \<open>package_to_file\<close> that nothing reads.)
\<close>

definition register_method :: "string \<Rightarrow> string \<Rightarrow> registry \<Rightarrow> sub_definition \<Rightarrow> registry" where
  "register_method file_path package_name global_functions method =
     AList.update (sd_full_name method)
       \<lparr>fi_file = file_path, fi_package = package_name, fi_method_name = sd_name method,
        fi_short_call_patterns =
          [sd_name method, package_name @ ''::'' @ sd_name method, ''$obj->'' @ sd_name method]\<rparr>
       global_functions"

definition register_package :: "string \<Rightarrow> registry \<Rightarrow> package_decl \<Rightarrow> registry" where
  "register_package file_path global_functions pkg =
     foldl (register_method file_path (pd_name pkg)) global_functions (pd_methods pkg)"

definition register_file :: "registry \<Rightarrow> perl_file \<Rightarrow> registry" where
  "register_file global_functions file_ast =
     foldl (register_package (pf_source_file file_ast)) global_functions (pf_packages file_ast)"

definition build_registry :: "perl_file list \<Rightarrow> registry" where
  "build_registry files = foldl register_file [] files"

text \<open>The four call patterns, in the order of the source:
  \<^verbatim>\<open>(\w+(?:::\w+)*)->\s*(\w+)\s*\(\<close>, \<^verbatim>\<open>(\w+(?:::\w+)*)::\s*(\w+)\s*\(\<close>,
  \<^verbatim>\<open>(\w+)\s*\(\<close> and \<^verbatim>\<open>(\w+(?:::\w+)*)->\s*new\s*\(\<close>.\<close>

definition qualified_rx :: rx where
  "qualified_rx = Seq (Plus word) (Star (Seq (lit ''::'') (Plus word)))"

definition object_method_rx :: rx where
  "object_method_rx = Seq (Grp qualified_rx) (Seq (lit ''->'') (Seq (Star ws)
                        (Seq (Grp (Plus word)) (Seq (Star ws) (Lit (CHR ''(''))))))"

definition package_function_rx :: rx where
  "package_function_rx = Seq (Grp qualified_rx) (Seq (lit ''::'') (Seq (Star ws)
                           (Seq (Grp (Plus word)) (Seq (Star ws) (Lit (CHR ''(''))))))"

definition direct_function_rx :: rx where
  "direct_function_rx = Seq (Grp (Plus word)) (Seq (Star ws) (Lit (CHR ''('')))"

definition constructor_rx :: rx where
  "constructor_rx = Seq (Grp qualified_rx) (Seq (lit ''->'') (Seq (Star ws)
                      (Seq (lit ''new'') (Seq (Star ws) (Lit (CHR ''(''))))))"

definition patterns :: "rx list" where
  "patterns = [object_method_rx, package_function_rx, direct_function_rx, constructor_rx]"

definition make_call ::
  "string \<Rightarrow> string \<Rightarrow> string option \<Rightarrow> function_info \<Rightarrow> string \<Rightarrow> string \<Rightarrow> string \<Rightarrow> string
     \<Rightarrow> cross_file_call" where
  "make_call cfile cpackage cmethod target_info tmethod full_name pat ctype =
     \<lparr>caller_file = cfile, caller_package = cpackage, caller_method = cmethod,
      target_file = fi_file target_info, target_package = fi_package target_info,
      target_method = tmethod, target_full_name = full_name,
      call_pattern = pat, call_type = ctype\<rparr>"

text \<open>
  Two groups: \<open>for full_name in possible_full_names\<close>, leaving the loop at the first
  name found in the registry, whether or not an edge was appended for it.
\<close>

fun resolve_two_groups ::
  "registry \<Rightarrow> string \<Rightarrow> string \<Rightarrow> string option \<Rightarrow> rmatch_obj \<Rightarrow> string list
     \<Rightarrow> cross_file_call list" where
  "resolve_two_groups gf cfile cpackage cmethod m [] = []"
| "resolve_two_groups gf cfile cpackage cmethod m (full_name # rest) =
     (case map_of gf full_name of
        Some target_info \<Rightarrow>
          if fi_file target_info \<noteq> cfile
          then [make_call cfile cpackage cmethod target_info (fi_method_name target_info) full_name
                  (group0 m)
                  (if contains (group0 m) ''->'' then ''object_method'' else ''package_function'')]
          else []
      | None \<Rightarrow> resolve_two_groups gf cfile cpackage cmethod m rest)"

definition resolve_constructor ::
  "registry \<Rightarrow> string \<Rightarrow> string \<Rightarrow> string option \<Rightarrow> rmatch_obj \<Rightarrow> cross_file_call list" where
  "resolve_constructor gf cfile cpackage cmethod m =
     (let constructor_name = (groups m ! 0) @ ''::new''
      in case map_of gf constructor_name of
           Some target_info \<Rightarrow>
             if fi_file target_info \<noteq> cfile
             then [make_call cfile cpackage cmethod target_info ''new'' constructor_name
                     (group0 m) ''constructor'']
             else []
         | None \<Rightarrow> [])"

text \<open>
  Direct function call: \<open>for full_name, target_info in global_functions.items()\<close>, in
  the dictionary's order, appending one edge and leaving the loop at the first entry that
  passes the test of the \<open>if\<close>.
\<close>

fun resolve_direct ::
  "string \<Rightarrow> string \<Rightarrow> string option \<Rightarrow> rmatch_obj \<Rightarrow> registry \<Rightarrow> cross_file_call list" where
  "resolve_direct cfile cpackage cmethod m [] = []"
| "resolve_direct cfile cpackage cmethod m ((full_name, target_info) # rest) =
     (if fi_method_name target_info = groups m ! 0 \<and> fi_file target_info \<noteq> cfile
      then [make_call cfile cpackage cmethod target_info (fi_method_name target_info) full_name
              (group0 m) ''direct_function'']
      else resolve_direct cfile cpackage cmethod m rest)"

text \<open>The body of \<open>for match in matches\<close>.\<close>

definition resolve_match ::
  "registry \<Rightarrow> string \<Rightarrow> string \<Rightarrow> string option \<Rightarrow> rmatch_obj \<Rightarrow> cross_file_call list" where
  "resolve_match gf cfile cpackage cmethod m =
     (if length (groups m) = 2 then
        resolve_two_groups gf cfile cpackage cmethod m
          [(groups m ! 0) @ ''::'' @ (groups m ! 1), groups m ! 1]
      else if length (groups m) = 1 then
        (if contains (group0 m) ''->new'' then resolve_constructor gf cfile cpackage cmethod m
         else resolve_direct cfile cpackage cmethod m gf)
      else [])"

definition find_function_calls_in_code ::
  "string \<Rightarrow> registry \<Rightarrow> string \<Rightarrow> string \<Rightarrow> string option \<Rightarrow> cross_file_call list" where
  "find_function_calls_in_code code gf cfile cpackage cmethod =
     concat (map (\<lambda>pattern.
        concat (map (resolve_match gf cfile cpackage cmethod) (finditer pattern code)))
        patterns)"

text \<open>Second pass: per file, each package's script body, then its methods' bodies, then
  the body of the global scope.  Empty bodies are skipped.\<close>

definition calls_of_package :: "registry \<Rightarrow> string \<Rightarrow> package_decl \<Rightarrow> cross_file_call list" where
  "calls_of_package gf source_file pkg =
     (case pd_script_execution pkg of
        Some sc \<Rightarrow>
          if sb_body sc \<noteq> []
          then find_function_calls_in_code (sb_body sc) gf source_file (pd_name pkg) None
          else []
      | None \<Rightarrow> [])
     @ concat (map (\<lambda>method.
         if sd_body method \<noteq> []
         then find_function_calls_in_code (sd_body method) gf source_file (pd_name pkg)
                (Some (sd_full_name method))
         else []) (pd_methods pkg))"

definition calls_of_file :: "registry \<Rightarrow> perl_file \<Rightarrow> cross_file_call list" where
  "calls_of_file gf file_ast =
     concat (map (calls_of_package gf (pf_source_file file_ast)) (pf_packages file_ast))
     @ (case pf_global_scope file_ast of
          Some g \<Rightarrow>
            if gs_body g \<noteq> []
            then find_function_calls_in_code (gs_body g) gf (pf_source_file file_ast) ''global'' None
            else []
        | None \<Rightarrow> [])"

text \<open>
  \<open>analyze_cross_file_calls\<close> adds exactly two keys to the project AST:
  \<open>cross_file_calls\<close> and \<open>global_function_registry\<close>.
\<close>

record call_analysis =
  cross_file_calls :: "cross_file_call list"
  global_function_registry :: registry

definition analyze_cross_file_calls :: "perl_file list \<Rightarrow> call_analysis" where
  "analyze_cross_file_calls files =
     (let global_functions = build_registry files
      in \<lparr>cross_file_calls = concat (map (calls_of_file global_functions) files),
          global_function_registry = global_functions\<rparr>)"

section \<open>Dependency analyzer: \<open>analyze_dependencies\<close>\<close>

record package_info =
  pi_file :: string
  pi_methods :: "string list"

text \<open>
  The first loop collects the file-level and then the package-level \<open>use\<close> statements of
  each file, and writes each package into \<open>package_definitions\<close> under its name.
\<close>

definition collect_uses :: "perl_file list \<Rightarrow> use_statement list" where
  "collect_uses files =
     concat (map (\<lambda>f. pf_use_statements f @ concat (map pd_use_statements (pf_packages f))) files)"

definition define_package ::
  "string \<Rightarrow> (string, package_info) pydict \<Rightarrow> package_decl \<Rightarrow> (string, package_info) pydict" where
  "define_package file_path defs pkg =
     AList.update (pd_name pkg) \<lparr>pi_file = file_path, pi_methods = map sd_name (pd_methods pkg)\<rparr> defs"

definition package_definitions_of :: "perl_file list \<Rightarrow> (string, package_info) pydict" where
  "package_definitions_of files =
     foldl (\<lambda>defs f. foldl (define_package (pf_source_file f)) defs (pf_packages f)) [] files"

text \<open>
  \<open>dependencies\<close> is a \<open>defaultdict(set)\<close>: a dictionary from a file to the set of files it
  depends on, kept here as a duplicate-free list.  \<open>module.split()[0]\<close> raises
  \<open>IndexError\<close> when the module text has no token; a use statement read from a file always
  carries its \<open>source_file\<close>.
\<close>

definition add_dependency ::
  "string \<Rightarrow> string \<Rightarrow> (string, string list) pydict \<Rightarrow> (string, string list) pydict" where
  "add_dependency file_of_use target deps =
     AList.update file_of_use
       (List.insert target (case map_of deps file_of_use of Some ts \<Rightarrow> ts | None \<Rightarrow> [])) deps"

fun dependency_loop ::
  "(string, package_info) pydict \<Rightarrow> use_statement list \<Rightarrow> (string, string list) pydict
     \<Rightarrow> py_error + (string, string list) pydict" where
  "dependency_loop defs [] deps = Inr deps"
| "dependency_loop defs (use_stmt # rest) deps =
     (case split_ws (us_module use_stmt) of
        [] \<Rightarrow> Inl IndexError
      | simple_module # _ \<Rightarrow>
          (case us_source_file use_stmt of
             None \<Rightarrow> Inl KeyError
           | Some file_of_use \<Rightarrow>
               (case map_of defs simple_module of
                  Some info \<Rightarrow>
                    dependency_loop defs rest (add_dependency file_of_use (pi_file info) deps)
                | None \<Rightarrow> dependency_loop defs rest deps)))"

definition analyze_dependencies ::
  "perl_file list \<Rightarrow> py_error + ((string, string list) pydict \<times> (string, package_info) pydict)" where
  "analyze_dependencies files =
     (let package_definitions = package_definitions_of files
      in case dependency_loop package_definitions (collect_uses files) [] of
           Inl e \<Rightarrow> Inl e
         | Inr deps \<Rightarrow> Inr (deps, package_definitions))"

section \<open>Graph transformer: \<open>Neo4jWriter._transform_perl_ast\<close>\<close>

datatype pval = PStr string | PBool bool | PInt int | PJsonList "pval list"

text \<open>
  A node is modelled by its \<open>id\<close>, \<open>type\<close> and \<open>name\<close>; its property dictionary, which
  no relationship refers to, is left out.
\<close>

record graph_node =
  node_id :: string
  node_type :: string
  node_name :: string

record relationship =
  from_id :: string
  to_id :: string
  rel_type :: string
  properties :: "(string, pval) pydict"

record project_ast =
  pa_files :: "perl_file list"
  pa_cross_file_calls :: "cross_file_call list"

record graph =
  nodes :: "graph_node list"
  relationships :: "relationship list"

definition normalize_id :: "string \<Rightarrow> string" where
  "normalize_id text =
     py_replace ''::'' ''_'' (py_replace [CHR 0x5C] ''_'' (py_replace '' '' ''_''
       (py_replace ''.'' ''_'' (py_replace ''/'' ''_'' text))))"

text \<open>\<open>os.path.splitext(os.path.basename(file_path))[0]\<close> on a POSIX path.\<close>

definition extract_filename :: "string \<Rightarrow> string" where
  "extract_filename file_path =
     (let base_name = rev (takeWhile (\<lambda>c. c \<noteq> CHR ''/'') (rev file_path));
          dots = takeWhile (\<lambda>c. c = CHR ''.'') base_name;
          rest = dropWhile (\<lambda>c. c = CHR ''.'') base_name
      in if CHR ''.'' \<in> set rest
         then dots @ rev (tl (dropWhile (\<lambda>c. c \<noteq> CHR ''.'') (rev rest)))
         else base_name)"

text \<open>\<open>s.split(sep)\<close> for a non-empty separator string.\<close>

function split_str_aux :: "string \<Rightarrow> string \<Rightarrow> string \<Rightarrow> string list" where
  "split_str_aux sep cur s =
     (if s = [] \<or> sep = [] then [rev cur @ s]
      else if startswith s sep then rev cur # split_str_aux sep [] (drop (length sep) s)
      else split_str_aux sep (hd s # cur) (tl s))"
  by pat_completeness auto
termination
  by (relation "measure (\<lambda>(sep, cur, s). length s)") auto

declare split_str_aux.simps [simp del]

definition split_str :: "string \<Rightarrow> string \<Rightarrow> string list" where
  "split_str sep s = split_str_aux sep [] s"

definition rel :: "string \<Rightarrow> string \<Rightarrow> string \<Rightarrow> relationship" where
  "rel a b t = \<lparr>from_id = a, to_id = b, rel_type = t, properties = []\<rparr>"

definition file_id_of :: "string \<Rightarrow> string" where
  "file_id_of file_path = ''file_'' @ normalize_id file_path"

definition package_id_of :: "string \<Rightarrow> string \<Rightarrow> string" where
  "package_id_of file_id name = ''package_'' @ file_id @ ''_'' @ normalize_id name"

definition use_elements :: "string \<Rightarrow> use_statement \<Rightarrow> graph_node list \<times> relationship list" where
  "use_elements owner_id use_stmt =
     (let use_id = ''use_'' @ normalize_id (us_module use_stmt) @ ''_'' @ owner_id
      in ([\<lparr>node_id = use_id, node_type = ''USE_STATEMENT'', node_name = us_module use_stmt\<rparr>],
          [rel owner_id use_id ''USES_MODULE'']))"

definition method_elements :: "string \<Rightarrow> sub_definition \<Rightarrow> graph_node list \<times> relationship list" where
  "method_elements package_id method =
     (let method_id = ''method_'' @ package_id @ ''_'' @ normalize_id (sd_name method)
      in ([\<lparr>node_id = method_id, node_type = ''METHOD'', node_name = sd_name method\<rparr>],
          [rel package_id method_id ''HAS_METHOD'']))"

definition script_elements :: "string \<Rightarrow> package_decl \<Rightarrow> graph_node list \<times> relationship list" where
  "script_elements package_id pkg =
     (case pd_script_execution pkg of
        Some script_data \<Rightarrow>
          ([\<lparr>node_id = ''script_'' @ package_id, node_type = ''SCRIPT_EXECUTION'',
             node_name = ''script_'' @ pd_name pkg\<rparr>],
           [rel package_id (''script_'' @ package_id) ''HAS_SCRIPT''])
      | None \<Rightarrow> ([], []))"

definition gather :: "(graph_node list \<times> relationship list) list \<Rightarrow> graph_node list \<times> relationship list" where
  "gather parts = (concat (map fst parts), concat (map snd parts))"

definition package_elements :: "string \<Rightarrow> package_decl \<Rightarrow> graph_node list \<times> relationship list" where
  "package_elements file_id pkg =
     (let package_id = package_id_of file_id (pd_name pkg)
      in gather
           ([([\<lparr>node_id = package_id, node_type = ''PACKAGE'', node_name = pd_name pkg\<rparr>],
              [rel file_id package_id ''CONTAINS_PACKAGE''])]
            @ map (use_elements package_id) (pd_use_statements pkg)
            @ map (method_elements package_id) (pd_methods pkg)
            @ [script_elements package_id pkg]))"

definition file_elements :: "perl_file \<Rightarrow> graph_node list \<times> relationship list" where
  "file_elements file_data =
     (let file_path = pf_source_file file_data; file_id = file_id_of file_path
      in gather
           ([([\<lparr>node_id = file_id, node_type = ''FILE'', node_name = extract_filename file_path\<rparr>],
              [])]
            @ map (use_elements file_id) (pf_use_statements file_data)
            @ map (package_elements file_id) (pf_packages file_data)))"

definition generate_method_caller_id :: "cross_file_call \<Rightarrow> string" where
  "generate_method_caller_id call =
     (let cfile = normalize_id (caller_file call);
          cpackage = normalize_id (caller_package call);
          package_id = ''package_file_'' @ cfile @ ''_'' @ cpackage
      in case caller_method call of
           Some cm \<Rightarrow>
             if cm \<noteq> [] then ''method_'' @ package_id @ ''_'' @ normalize_id (last (split_str ''::'' cm))
             else ''script_'' @ package_id
         | None \<Rightarrow> ''script_'' @ package_id)"

definition generate_method_target_id :: "cross_file_call \<Rightarrow> string" where
  "generate_method_target_id call =
     ''method_'' @ (''package_file_'' @ normalize_id (target_file call) @ ''_''
        @ normalize_id (target_package call)) @ ''_'' @ normalize_id (target_method call)"

definition call_relationship :: "cross_file_call \<Rightarrow> relationship" where
  "call_relationship call =
     \<lparr>from_id = generate_method_caller_id call, to_id = generate_method_target_id call,
      rel_type = ''CALLS_METHOD'',
      properties =
        [(''call_type'', PStr (call_type call)), (''call_pattern'', PStr (call_pattern call)),
         (''caller_file'', PStr (caller_file call)), (''target_file'', PStr (target_file call)),
         (''caller_package'', PStr (caller_package call)),
         (''target_package'', PStr (target_package call)), (''is_cross_file'', PBool True)]\<rparr>"

subsection \<open>\<open>aggregate_relationships\<close>\<close>

text \<open>
  The accumulator of one key.  The two Python sets are kept as duplicate-free lists; the
  order in which Python lists a set's elements is unspecified, so only the elements of
  these lists carry meaning (and \<open>call_type\<close>, which the source takes as the first element
  of \<open>list(call_types)\<close>, is some element of the set).
\<close>

record agg_entry =
  ag_count :: int
  ag_properties :: "(string, pval) pydict"
  ag_call_patterns :: "pval list"
  ag_call_types :: "pval list"

type_synonym rel_key = "string \<times> string \<times> string"

definition rel_key_of :: "relationship \<Rightarrow> rel_key" where
  "rel_key_of r = (from_id r, to_id r, rel_type r)"

definition agg_default :: agg_entry where
  "agg_default = \<lparr>ag_count = 0, ag_properties = [], ag_call_patterns = [], ag_call_types = []\<rparr>"

definition agg_step :: "(rel_key, agg_entry) pydict \<Rightarrow> relationship \<Rightarrow> (rel_key, agg_entry) pydict" where
  "agg_step aggregated r =
     (let key = rel_key_of r;
          d0 = (case map_of aggregated key of Some d \<Rightarrow> d | None \<Rightarrow> agg_default);
          d1 = d0\<lparr>ag_count := ag_count d0 + 1\<rparr>;
          d2 = (if ag_properties d1 = [] then d1\<lparr>ag_properties := properties r\<rparr> else d1);
          d3 = (case map_of (properties r) ''call_pattern'' of
                  Some v \<Rightarrow> d2\<lparr>ag_call_patterns := List.insert v (ag_call_patterns d2)\<rparr>
                | None \<Rightarrow> d2);
          d4 = (case map_of (properties r) ''call_type'' of
                  Some v \<Rightarrow> d3\<lparr>ag_call_types := List.insert v (ag_call_types d3)\<rparr>
                | None \<Rightarrow> d3)
      in AList.update key d4 aggregated)"

definition agg_result :: "rel_key \<times> agg_entry \<Rightarrow> relationship" where
  "agg_result kd =
     (case kd of ((a, b, t), d) \<Rightarrow>
        (let p0 = AList.update ''call_count'' (PInt (ag_count d)) (ag_properties d);
             p1 = (if ag_call_patterns d \<noteq> []
                   then AList.update ''call_patterns'' (PJsonList (ag_call_patterns d)) p0 else p0);
             p2 = (if ag_call_types d \<noteq> []
                   then AList.update ''call_type'' (hd (ag_call_types d))
                          (AList.update ''call_types'' (PJsonList (ag_call_types d)) p1)
                   else p1)
         in \<lparr>from_id = a, to_id = b, rel_type = t, properties = p2\<rparr>))"

definition aggregate_relationships :: "relationship list \<Rightarrow> relationship list" where
  "aggregate_relationships rels = map agg_result (foldl agg_step [] rels)"

definition raw_relationships :: "project_ast \<Rightarrow> relationship list" where
  "raw_relationships ast_data =
     snd (gather (map file_elements (pa_files ast_data)))
     @ map call_relationship (pa_cross_file_calls ast_data)"

definition transform_perl_ast :: "project_ast \<Rightarrow> graph" where
  "transform_perl_ast ast_data =
     \<lparr>nodes = fst (gather (map file_elements (pa_files ast_data))),
      relationships = aggregate_relationships (raw_relationships ast_data)\<rparr>"

section \<open>Notions used to state the properties\<close>

text \<open>A line of a file as \<open>readlines\<close> returns it, with its newline.\<close>

definition ln :: "string \<Rightarrow> string" where
  "ln s = s @ [CHR 0x0A]"

subsection \<open>Segments of a file\<close>

text \<open>
  A namespace-declaration line is a line that the segmenter treats as one: it is not
  dropped as a shebang line and the package pattern matches it.  \<open>seg_from acc ls\<close> cuts
  the lines \<open>ls\<close> at these lines, shebang lines dropped, \<open>acc\<close> being the lines already
  collected for the first segment: the first segment is the leading global one, every
  other segment follows one namespace declaration.
\<close>

definition is_pkg_line :: "string \<Rightarrow> bool" where
  "is_pkg_line line = (\<not> is_shebang line \<and> pkg_match line \<noteq> None)"

definition pkg_count :: "string list \<Rightarrow> nat" where
  "pkg_count lines = length (filter is_pkg_line lines)"

fun seg_from :: "string list \<Rightarrow> string list \<Rightarrow> string list list" where
  "seg_from acc [] = [acc]"
| "seg_from acc (l # ls) =
     (if is_shebang l then seg_from acc ls
      else if pkg_match l \<noteq> None then acc # seg_from [] ls
      else seg_from (acc @ [l]) ls)"

definition c4_lines :: "string list" where
  "c4_lines = [ln ''print 1;'', ln ''package A;'', ln ''package B;'', ln ''sub f { 1 }'']"

subsection \<open>A file of a shebang line and blank lines\<close>

definition c8_lines :: "string list" where
  "c8_lines = [ln ''#!/usr/bin/perl'', ln '''', ln ''   '']"

definition c8_fs :: "string \<rightharpoonup> string list" where
  "c8_fs = [''empty.pl'' \<mapsto> c8_lines]"

text \<open>The record \<open>process_single_file\<close> returns for a file without an AST.\<close>

definition failed_result :: "string \<Rightarrow> file_result" where
  "failed_result path =
     \<lparr>fr_file = path, fr_status = ''failed'', fr_error = Some ''Failed to create AST'',
      fr_ast = None\<rparr>"

subsection \<open>The match a backtracking engine reports\<close>


subsection \<open>Blocks and their brace counter\<close>

definition no_content :: block_content where
  "no_content = \<lparr>use_statements = [], methods = [], execution_lines = []\<rparr>"

text \<open>The value of the brace counter once the lines \<open>i\<close> to \<open>j\<close> of a block are counted.\<close>

definition brace_count_after :: "string list \<Rightarrow> nat \<Rightarrow> nat \<Rightarrow> int" where
  "brace_count_after lines i j = sum_list (map brace_delta (take (Suc j - i) (drop i lines)))"

text \<open>A definition whose opening brace stands on the line after the keyword, the same
  definition with the brace on the keyword line, and two definitions that are never
  closed: one without any closing brace, one with an inner block.\<close>

definition c5_lines :: "string list" where
  "c5_lines = [ln ''sub foo'', ln ''{'', ln ''    return 1;'', ln ''}'']"

definition c5_lines_same_line :: "string list" where
  "c5_lines_same_line = [ln ''sub foo {'', ln ''    return 1;'', ln ''}'']"


definition c6_lines_inner :: "string list" where
  "c6_lines_inner = [ln ''sub foo {'', ln ''  if ($x) {'', ln ''    return 1;'', ln ''  }'',
                     ''  return 2;'']"

subsection \<open>What a pattern can capture and consume\<close>

text \<open>
  \<open>ngroups r\<close> is the number of groups of \<open>r\<close>, \<open>regular r\<close> says that every match of \<open>r\<close>
  fills exactly these groups (no group under a repetition, the same number of groups in
  both branches of an alternation), and \<open>rx_chars r\<close> are the characters \<open>r\<close> can consume.
\<close>

primrec ngroups :: "rx \<Rightarrow> nat" where
  "ngroups Eps = 0"
| "ngroups (Lit c) = 0"
| "ngroups (Cls p) = 0"
| "ngroups (Seq a b) = ngroups a + ngroups b"
| "ngroups (Alt a b) = ngroups a"
| "ngroups (Star a) = 0"
| "ngroups (Grp a) = Suc (ngroups a)"

primrec regular :: "rx \<Rightarrow> bool" where
  "regular Eps = True"
| "regular (Lit c) = True"
| "regular (Cls p) = True"
| "regular (Seq a b) = (regular a \<and> regular b)"
| "regular (Alt a b) = (regular a \<and> regular b \<and> ngroups a = ngroups b)"
| "regular (Star a) = (regular a \<and> ngroups a = 0)"
| "regular (Grp a) = regular a"

primrec rx_chars :: "rx \<Rightarrow> char \<Rightarrow> bool" where
  "rx_chars Eps c = False"
| "rx_chars (Lit x) c = (c = x)"
| "rx_chars (Cls p) c = p c"
| "rx_chars (Seq a b) c = (rx_chars a c \<or> rx_chars b c)"
| "rx_chars (Alt a b) c = (rx_chars a c \<or> rx_chars b c)"
| "rx_chars (Star a) c = rx_chars a c"
| "rx_chars (Grp a) c = rx_chars a c"

subsection \<open>Direct-function resolution as the specification words it\<close>







subsection \<open>Declarations and registry entries\<close>







subsection \<open>Dependency edges\<close>

text \<open>
  \<open>depends_on deps f\<close> is the set of files that \<open>f\<close> has a dependency edge to.
  \<open>import_target defs u\<close> is the owning file of the package that the import \<open>u\<close> names: the
  first whitespace-separated token of its module text, looked up among the known packages.
  An import is well formed when its module text has a token and it carries its file.
\<close>

definition depends_on :: "(string, string list) pydict \<Rightarrow> string \<Rightarrow> string set" where
  "depends_on deps f = (case map_of deps f of None \<Rightarrow> {} | Some ts \<Rightarrow> set ts)"

definition import_target :: "(string, package_info) pydict \<Rightarrow> use_statement \<Rightarrow> string option" where
  "import_target defs u =
     (case split_ws (us_module u) of
        [] \<Rightarrow> None
      | simple_module # _ \<Rightarrow> map_option pi_file (map_of defs simple_module))"

definition well_formed_use :: "use_statement \<Rightarrow> bool" where
  "well_formed_use u = (split_ws (us_module u) \<noteq> [] \<and> us_source_file u \<noteq> None)"

text \<open>A script that declares a helper package and imports it in its own main package.\<close>

definition c7_fs :: "string \<rightharpoonup> string list" where
  "c7_fs = [''main.pl'' \<mapsto> [ln ''package Util;'', ln ''sub help { return 1; }'',
                              ln ''package main;'', ln ''use Util;'', ln ''Util::help();'']]"

definition c7_file :: perl_file where
  "c7_file =
     \<lparr>pf_source_file = ''main.pl'', pf_use_statements = [],
      pf_packages =
        [\<lparr>pd_name = ''Util'', pd_use_statements = [],
          pd_methods = [\<lparr>sd_name = ''help'', sd_parameters = [], sd_body = ''return 1;'',
                         sd_package = Some ''Util'', sd_full_name = ''Util::help''\<rparr>],
          pd_script_execution = None, pd_source_file = ''main.pl''\<rparr>,
         \<lparr>pd_name = ''main'',
          pd_use_statements = [\<lparr>us_module = ''Util'', us_source_file = Some ''main.pl''\<rparr>],
          pd_methods = [],
          pd_script_execution = Some \<lparr>sb_body = ''Util::help();'', sb_source_file = ''main.pl''\<rparr>,
          pd_source_file = ''main.pl''\<rparr>],
      pf_global_scope = None\<rparr>"

subsection \<open>Aggregated relationships\<close>

text \<open>
  For a triple \<open>k\<close> and the raw relationships \<open>rels\<close>: \<open>collapsed rels k\<close> is the number of
  raw relationships with that triple, and \<open>observed prop rels k\<close> the set of values that
  the property \<open>prop\<close> takes on them.  \<open>agg_ok rels k d\<close> says that the accumulator \<open>d\<close>
  holds exactly that for \<open>k\<close>.
\<close>

definition observed :: "string \<Rightarrow> relationship list \<Rightarrow> rel_key \<Rightarrow> pval set" where
  "observed prop rels k =
     set (List.map_filter (\<lambda>x. if rel_key_of x = k then map_of (properties x) prop else None) rels)"

definition collapsed :: "relationship list \<Rightarrow> rel_key \<Rightarrow> nat" where
  "collapsed rels k = length (filter (\<lambda>x. rel_key_of x = k) rels)"

definition agg_ok :: "relationship list \<Rightarrow> rel_key \<Rightarrow> agg_entry \<Rightarrow> bool" where
  "agg_ok rels k d =
     (ag_count d = int (collapsed rels k)
      \<and> distinct (ag_call_patterns d) \<and> set (ag_call_patterns d) = observed ''call_pattern'' rels k
      \<and> distinct (ag_call_types d) \<and> set (ag_call_types d) = observed ''call_type'' rels k)"

text \<open>
  A project of two files: \<open>lib/Animal.pm\<close> declares \<open>Animal::speak\<close>, and the script
  \<open>main.pl\<close> calls it three times from its global scope, once by its qualified name.
\<close>

definition zoo_fs :: "string \<rightharpoonup> string list" where
  "zoo_fs = [''lib/Animal.pm'' \<mapsto> [ln ''package Animal;'', ln ''sub speak { return 1; }'', ln ''1;''],
             ''main.pl'' \<mapsto> [ln ''#!/usr/bin/perl'', ln ''use Animal;'', ln ''speak();'',
                               ln ''Animal::speak();'']]"

definition zoo_animal :: perl_file where
  "zoo_animal =
     \<lparr>pf_source_file = ''lib/Animal.pm'', pf_use_statements = [],
      pf_packages =
        [\<lparr>pd_name = ''Animal'', pd_use_statements = [],
          pd_methods = [\<lparr>sd_name = ''speak'', sd_parameters = [], sd_body = ''return 1;'',
                         sd_package = Some ''Animal'', sd_full_name = ''Animal::speak''\<rparr>],
          pd_script_execution = Some \<lparr>sb_body = ''1;'', sb_source_file = ''lib/Animal.pm''\<rparr>,
          pd_source_file = ''lib/Animal.pm''\<rparr>],
      pf_global_scope = None\<rparr>"

definition zoo_main :: perl_file where
  "zoo_main =
     \<lparr>pf_source_file = ''main.pl'',
      pf_use_statements = [\<lparr>us_module = ''Animal'', us_source_file = Some ''main.pl''\<rparr>],
      pf_packages = [],
      pf_global_scope =
        Some \<lparr>gs_body = ln ''speak();'' @ ''Animal::speak();'', gs_source_file = ''main.pl'',
              gs_functions = None\<rparr>\<rparr>"

definition zoo_call :: "string \<Rightarrow> string \<Rightarrow> cross_file_call" where
  "zoo_call pat ctype =
     \<lparr>caller_file = ''main.pl'', caller_package = ''global'', caller_method = None,
      target_file = ''lib/Animal.pm'', target_package = ''Animal'', target_method = ''speak'',
      target_full_name = ''Animal::speak'', call_pattern = pat, call_type = ctype\<rparr>"

definition zoo_ast :: project_ast where
  "zoo_ast = \<lparr>pa_files = [zoo_animal, zoo_main],
              pa_cross_file_calls = cross_file_calls (analyze_cross_file_calls [zoo_animal, zoo_main])\<rparr>"

definition zoo_key :: rel_key where
  "zoo_key = (''script_package_file_main_pl_global'',
              ''method_package_file_lib_Animal_pm_Animal_speak'', ''CALLS_METHOD'')"

section \<open>Verification\<close>

subsection \<open>Block segmenter\<close>

lemma seg_step_shebang: "is_shebang l \<Longrightarrow> seg_step (bs, cur) l = (bs, cur)"
  by (simp add: seg_step_def)

lemma seg_step_line:
  "\<not> is_shebang l \<Longrightarrow> pkg_match l = None \<Longrightarrow>
   seg_step (bs, cur) l = (bs, cur\<lparr>blines := blines cur @ [l]\<rparr>)"
  by (simp add: seg_step_def)

lemma seg_step_package:
  "\<not> is_shebang l \<Longrightarrow> pkg_match l = Some m \<Longrightarrow>
   seg_step (bs, cur) l =
     (if any_nonblank (blines cur) then bs @ [cur] else bs,
      \<lparr>btype = package, bname = Some (strip (groups m ! 0)), blines = []\<rparr>)"
  by (simp add: seg_step_def)

lemma length_seg_from: "length (seg_from acc ls) = pkg_count ls + 1"
  by (induction ls arbitrary: acc) (auto simp: pkg_count_def is_pkg_line_def)

text \<open>The loop emits one block per segment that has a non-blank line; the segment still
  being collected is counted when it has one.\<close>

lemma foldl_seg_step_count:
  "foldl seg_step (bs, cur) ls = (bs', cur') \<Longrightarrow>
   length bs' + (if any_nonblank (blines cur') then 1 else 0)
     = length bs + length (filter any_nonblank (seg_from (blines cur) ls))"
proof (induction ls arbitrary: bs cur)
  case Nil
  then show ?case by auto
next
  case (Cons l ls)
  show ?case
  proof (cases "is_shebang l")
    case True
    with Cons.prems have "foldl seg_step (bs, cur) ls = (bs', cur')"
      by (simp add: seg_step_shebang)
    from Cons.IH[OF this] True show ?thesis by simp
  next
    case False
    show ?thesis
    proof (cases "pkg_match l")
      case None
      with False Cons.prems
      have "foldl seg_step (bs, cur\<lparr>blines := blines cur @ [l]\<rparr>) ls = (bs', cur')"
        by (simp add: seg_step_line)
      from Cons.IH[OF this] False None show ?thesis by simp
    next
      case (Some m)
      let ?new = "\<lparr>btype = package, bname = Some (strip (groups m ! 0)), blines = []\<rparr>"
      from False Some Cons.prems
      have "foldl seg_step (if any_nonblank (blines cur) then bs @ [cur] else bs, ?new) ls
              = (bs', cur')"
        by (simp add: seg_step_package)
      from Cons.IH[OF this] False Some show ?thesis by simp
    qed
  qed
qed

text \<open>
  C4, as stated, fails: the file \<open>c4_lines\<close> has two namespace declarations and does not
  begin with one, so three blocks are claimed, but the segment of package \<open>A\<close> is empty
  and only two blocks are emitted.
\<close>

theorem C4_counterexample:
  "pkg_count c4_lines = 2 \<and> \<not> is_pkg_line (hd c4_lines) \<and> length (segment_lines c4_lines) = 2"
  by code_simp

text \<open>
  C4, amended: the number of emitted blocks is the number of segments (the leading global
  segment and one per namespace declaration, so declarations plus one in all) that hold
  at least one non-blank line; a segment without one emits no block, whether it is the
  leading one or not.  Hence the number never exceeds the declarations plus one.
\<close>

theorem C4_block_count:
  "length (segment_lines lines) = length (filter any_nonblank (seg_from [] lines))
   \<and> length (seg_from [] lines) = pkg_count lines + 1
   \<and> length (segment_lines lines) \<le> pkg_count lines + 1"
proof -
  obtain bs cur where f:
    "foldl seg_step ([], \<lparr>btype = global_scope, bname = None, blines = []\<rparr>) lines = (bs, cur)"
    by (cases "foldl seg_step ([], \<lparr>btype = global_scope, bname = None, blines = []\<rparr>) lines")
       auto
  have s: "segment_lines lines = (if any_nonblank (blines cur) then bs @ [cur] else bs)"
    by (simp add: segment_lines_def f)
  from foldl_seg_step_count[OF f]
  have a: "length (segment_lines lines) = length (filter any_nonblank (seg_from [] lines))"
    unfolding s by (simp split: if_splits)
  have b: "length (seg_from [] lines) = pkg_count lines + 1"
    by (rule length_seg_from)
  have "length (filter any_nonblank (seg_from [] lines)) \<le> length (seg_from [] lines)"
    by (rule length_filter_le)
  with a b show ?thesis by simp
qed

subsection \<open>Files without content\<close>

lemma pkg_match_blank: "strip l = [] \<Longrightarrow> pkg_match l = None"
  by (simp add: pkg_match_def re_match_def pkg_rx_def lit_def Plus_def)

lemma foldl_seg_step_blank:
  "list_all (\<lambda>l. is_shebang l \<or> strip l = []) ls \<Longrightarrow> \<not> any_nonblank (blines cur) \<Longrightarrow>
   \<exists>cur'. foldl seg_step (bs, cur) ls = (bs, cur') \<and> \<not> any_nonblank (blines cur')"
proof (induction ls arbitrary: cur)
  case Nil
  then show ?case by simp
next
  case (Cons l ls)
  show ?case
  proof (cases "is_shebang l")
    case True
    with Cons show ?thesis by (simp add: seg_step_shebang)
  next
    case False
    with Cons.prems have b: "strip l = []" by simp
    have n: "\<not> any_nonblank (blines (cur\<lparr>blines := blines cur @ [l]\<rparr>))"
      using Cons.prems(2) b by (simp add: any_nonblank_def)
    from Cons.prems(1) have "list_all (\<lambda>l. is_shebang l \<or> strip l = []) ls" by simp
    from Cons.IH[OF this n] False b show ?thesis
      by (simp add: seg_step_line pkg_match_blank)
  qed
qed

lemma segment_lines_blank:
  assumes a: "list_all (\<lambda>l. is_shebang l \<or> strip l = []) ls"
  shows "segment_lines ls = []"
proof -
  let ?c = "\<lparr>btype = global_scope, bname = None, blines = []\<rparr>"
  have "\<not> any_nonblank (blines ?c)" by (simp add: any_nonblank_def)
  from foldl_seg_step_blank[OF a this, of "[]"]
  obtain cur' where "foldl seg_step ([], ?c) ls = ([], cur')" "\<not> any_nonblank (blines cur')"
    by blast
  then show ?thesis by (simp add: segment_lines_def)
qed

text \<open>
  C8, as stated, fails: the file \<open>empty.pl\<close>, a shebang line and two blank lines, is not
  turned into a file structure; it is reported as failed, without an AST.
\<close>

theorem C8_counterexample:
  "fr_status (process_single_file c8_fs ''empty.pl'') = ''failed''
   \<and> fr_error (process_single_file c8_fs ''empty.pl'') = Some ''Failed to create AST''
   \<and> fr_ast (process_single_file c8_fs ''empty.pl'') = None"
  by code_simp

text \<open>
  C8, amended: a readable file whose lines are only shebang lines and blank lines yields
  no block at all; \<open>create_ast_from_file\<close> then returns no AST and
  \<open>process_single_file\<close> reports the file as failed with the error
  \<open>Failed to create AST\<close>.
\<close>

theorem C8_blank_file_fails:
  assumes "fs path = Some lines"
    and "list_all (\<lambda>l. is_shebang l \<or> strip l = []) lines"
  shows "parse_perl_file_to_blocks fs path = []
     \<and> create_ast_from_file fs path = None
     \<and> process_single_file fs path = failed_result path"
  using assms segment_lines_blank[of lines]
  by (simp add: parse_perl_file_to_blocks_def create_ast_from_file_def
      process_single_file_def failed_result_def)

theorem C8_blank_file_fails_witness:
  "c8_fs ''empty.pl'' = Some c8_lines
   \<and> list_all (\<lambda>l. is_shebang l \<or> strip l = []) c8_lines
   \<and> parse_perl_file_to_blocks c8_fs ''empty.pl'' = []
   \<and> create_ast_from_file c8_fs ''empty.pl'' = None
   \<and> process_single_file c8_fs ''empty.pl'' = failed_result ''empty.pl''"
proof -
  have a: "c8_fs ''empty.pl'' = Some c8_lines"
    by (simp add: c8_fs_def)
  have b: "list_all (\<lambda>l. is_shebang l \<or> strip l = []) c8_lines"
    by (simp add: c8_lines_def is_shebang_def strip_def ln_def is_space_def startswith_def)
  from C8_blank_file_fails[of c8_fs "''empty.pl''" c8_lines, OF a b] a b
  show ?thesis by simp
qed

subsection \<open>First matches of the patterns\<close>

















text \<open>One iteration of the classifier's loop, case by case.\<close>

lemma pbl_end: "\<not> i < length lines \<Longrightarrow> parse_block_loop pkg lines i st = st"
  by (subst parse_block_loop.simps) simp

lemma pbl_use:
  "i < length lines \<Longrightarrow> use_match (lines ! i) = Some m \<Longrightarrow>
   parse_block_loop pkg lines i st =
     parse_block_loop pkg lines (Suc i)
       (st\<lparr>use_statements := use_statements st @
          [\<lparr>us_module = strip (groups m ! 1), us_source_file = None\<rparr>]\<rparr>)"
  by (subst parse_block_loop.simps) simp

lemma pbl_sub:
  "i < length lines \<Longrightarrow> use_match (lines ! i) = None \<Longrightarrow> opens_sub (lines ! i) \<Longrightarrow>
   parse_block_loop pkg lines i st =
     parse_block_loop pkg lines (i + scan_braces lines i (brace_delta (lines ! i)) + 1)
       (st\<lparr>methods := methods st @
          [make_sub pkg (groups (the (sub_match (lines ! i))) ! 0)
             (take (scan_braces lines i (brace_delta (lines ! i)) + 1) (drop i lines))]\<rparr>)"
  by (subst parse_block_loop.simps) simp

lemma pbl_exec:
  "i < length lines \<Longrightarrow> use_match (lines ! i) = None \<Longrightarrow> \<not> opens_sub (lines ! i) \<Longrightarrow>
   parse_block_loop pkg lines i st =
     parse_block_loop pkg lines (Suc i) (st\<lparr>execution_lines := execution_lines st @ [lines ! i]\<rparr>)"
  by (subst parse_block_loop.simps) simp


lemma startswith_append: "startswith s p \<Longrightarrow> \<exists>r. s = p @ r"
  unfolding startswith_def by (metis append_take_drop_id)

lemma star_n_nomatch: "f s = [] \<Longrightarrow> star_n n f s = [([], s)]"
  by (cases n) auto

lemma use_match_sub_line:
  assumes "startswith (strip line) ''sub ''"
  shows "use_match line = None"
proof -
  from startswith_append[OF assms] obtain r where r: "strip line = ''sub '' @ r" by blast
  show ?thesis
    by (simp add: use_match_def re_match_def use_rx_def r star_n_nomatch lit_def ws_def is_space_def)
qed

lemma scan_braces_to_end:
  "i < length lines \<Longrightarrow>
   \<forall>j. i \<le> j \<and> Suc j < length lines \<longrightarrow>
       0 < b + sum_list (map brace_delta (take (j - i) (drop (Suc i) lines))) \<Longrightarrow>
   scan_braces lines i b = length lines - 1 - i"
proof (induction lines i b rule: scan_braces.induct)
  case (1 lines i b)
  show ?case
  proof (cases "Suc i < length lines")
    case False
    with "1.prems"(1) show ?thesis by (subst scan_braces.simps) simp
  next
    case True
    from "1.prems"(2)[rule_format, of i] True have b: "0 < b" by simp
    have d: "drop (Suc i) lines = lines ! Suc i # drop (Suc (Suc i)) lines"
      using True by (simp add: Cons_nth_drop_Suc)
    have "\<forall>j. Suc i \<le> j \<and> Suc j < length lines \<longrightarrow>
       0 < (b + brace_delta (lines ! (i + 1)))
             + sum_list (map brace_delta (take (j - Suc i) (drop (Suc (Suc i)) lines)))"
    proof (intro allI impI)
      fix j assume j: "Suc i \<le> j \<and> Suc j < length lines"
      then have "j - i = Suc (j - Suc i)" by arith
      with "1.prems"(2)[rule_format, of j] j d
      show "0 < (b + brace_delta (lines ! (i + 1)))
             + sum_list (map brace_delta (take (j - Suc i) (drop (Suc (Suc i)) lines)))"
        by simp
    qed
    with "1.IH" b True have "scan_braces lines (i + 1) (b + brace_delta (lines ! (i + 1)))
        = length lines - 1 - (i + 1)" by simp
    with b True show ?thesis by (subst scan_braces.simps) simp
  qed
qed

lemma find_from_first: "c \<notin> set pre \<Longrightarrow> find_from c n (pre @ c # rest) = n + int (length pre)"
  by (induction pre arbitrary: n) auto

lemma extract_body_between:
  assumes "CHR ''{'' \<notin> set pre" "CHR ''}'' \<notin> set post"
  shows "extract_body (pre @ CHR ''{'' # mid @ CHR ''}'' # post) = strip mid"
proof -
  let ?s = "pre @ CHR ''{'' # mid @ CHR ''}'' # post"
  have f: "find_char (CHR ''{'') ?s = int (length pre)"
    using find_from_first[OF assms(1), of 0] by (simp add: find_char_def)
  have "find_from (CHR ''}'') 0 (rev ?s) = int (length post)"
    using find_from_first[of "CHR ''}''" "rev post" 0 "rev mid @ CHR ''{'' # rev pre"] assms(2)
    by simp
  then have r: "rfind_char (CHR ''}'') ?s = int (length pre + 1 + length mid)"
    by (simp add: rfind_char_def)
  have n1: "nat (int (length pre) + 1) = Suc (length pre)" by simp
  have n2: "nat (1 + (int (length pre) + int (length mid))) = Suc (length pre + length mid)"
    by simp
  have "py_slice ?s (int (length pre) + 1) (int (length pre + 1 + length mid)) = mid"
    by (simp add: py_slice_def slice_bound_def Let_def n1 n2)
  with f r show ?thesis by (simp add: extract_body_def Let_def)
qed

lemma sd_name_make_sub: "sd_name (make_sub pkg n ls) = n"
  by (simp add: make_sub_def Let_def)

lemma pbl_methods_origin:
  "\<forall>d\<in>set (methods st). \<exists>j<length lines. opens_sub (lines ! j)
        \<and> sd_name d = groups (the (sub_match (lines ! j))) ! 0 \<Longrightarrow>
   \<forall>d\<in>set (methods (parse_block_loop pkg lines i st)). \<exists>j<length lines. opens_sub (lines ! j)
        \<and> sd_name d = groups (the (sub_match (lines ! j))) ! 0"
proof (induction pkg lines i st rule: parse_block_loop.induct)
  case (1 pkg lines i st)
  show ?case
  proof (cases "i < length lines")
    case False
    with "1.prems" show ?thesis by (simp add: pbl_end)
  next
    case True
    show ?thesis
    proof (cases "use_match (lines ! i)")
      case (Some m)
      from "1.IH"(3)[OF True Some] "1.prems" show ?thesis
        unfolding pbl_use[OF True Some] by simp
    next
      case None
      show ?thesis
      proof (cases "opens_sub (lines ! i)")
        case sub: True
        have "\<forall>d\<in>set (methods (st\<lparr>methods := methods st @
                   [make_sub pkg (groups (the (sub_match (lines ! i))) ! 0)
                      (take (scan_braces lines i (brace_delta (lines ! i)) + 1) (drop i lines))]\<rparr>)).
               \<exists>j<length lines. opens_sub (lines ! j)
                  \<and> sd_name d = groups (the (sub_match (lines ! j))) ! 0"
          using "1.prems" True sub by (auto simp: sd_name_make_sub)
        from "1.IH"(1)[OF True None sub this] show ?thesis
          unfolding pbl_sub[OF True None sub] .
      next
        case False
        from "1.IH"(2)[OF True None False] "1.prems" show ?thesis
          unfolding pbl_exec[OF True None False] by simp
      qed
    qed
  qed
qed

subsection \<open>Import lines\<close>



subsection \<open>Lines that open a definition\<close>

text \<open>
  C5, as stated, fails: in \<open>c5_lines\<close> the opening brace stands on the line after the
  keyword line; no definition is extracted and all four lines are residual lines.
\<close>

theorem C5_counterexample:
  "parse_block_content c5_lines (Some ''P'')
     = \<lparr>use_statements = [], methods = [], execution_lines = c5_lines\<rparr>"
  by code_simp

text \<open>
  C5, amended: a line whose stripped text begins with the definition keyword opens a
  definition only when the line itself holds an opening brace.  With the keyword, an
  identifier and a brace on the line, brace-balanced extraction starts there and appends
  a definition.  Without a brace on the line, the line is appended to the residual lines
  and the cursor moves to the next line.  Every definition of a block's result was
  opened by a line that holds the keyword, an identifier and an opening brace.
\<close>

theorem C5_brace_on_keyword_line:
  assumes "i < length lines"
    and "startswith (strip (lines ! i)) ''sub ''"
  shows "(CHR ''{'' \<notin> set (lines ! i) \<longrightarrow>
            parse_block_loop pkg lines i st =
              parse_block_loop pkg lines (Suc i)
                (st\<lparr>execution_lines := execution_lines st @ [lines ! i]\<rparr>))
       \<and> (CHR ''{'' \<in> set (lines ! i) \<and> sub_match (lines ! i) = Some m \<longrightarrow>
            parse_block_loop pkg lines i st =
              parse_block_loop pkg lines (i + scan_braces lines i (brace_delta (lines ! i)) + 1)
                (st\<lparr>methods := methods st @
                   [make_sub pkg (groups m ! 0)
                      (take (scan_braces lines i (brace_delta (lines ! i)) + 1) (drop i lines))]\<rparr>))
       \<and> (\<forall>d\<in>set (methods (parse_block_content lines pkg)).
            \<exists>j<length lines. opens_sub (lines ! j)
               \<and> sd_name d = groups (the (sub_match (lines ! j))) ! 0)"
proof -
  note u = use_match_sub_line[OF assms(2)]
  have a: "CHR ''{'' \<notin> set (lines ! i) \<longrightarrow>
            parse_block_loop pkg lines i st =
              parse_block_loop pkg lines (Suc i)
                (st\<lparr>execution_lines := execution_lines st @ [lines ! i]\<rparr>)"
  proof
    assume "CHR ''{'' \<notin> set (lines ! i)"
    then have "\<not> opens_sub (lines ! i)" by (simp add: opens_sub_def)
    from pbl_exec[OF assms(1) u this]
    show "parse_block_loop pkg lines i st =
              parse_block_loop pkg lines (Suc i)
                (st\<lparr>execution_lines := execution_lines st @ [lines ! i]\<rparr>)" .
  qed
  have b: "CHR ''{'' \<in> set (lines ! i) \<and> sub_match (lines ! i) = Some m \<longrightarrow>
            parse_block_loop pkg lines i st =
              parse_block_loop pkg lines (i + scan_braces lines i (brace_delta (lines ! i)) + 1)
                (st\<lparr>methods := methods st @
                   [make_sub pkg (groups m ! 0)
                      (take (scan_braces lines i (brace_delta (lines ! i)) + 1) (drop i lines))]\<rparr>)"
  proof
    assume h: "CHR ''{'' \<in> set (lines ! i) \<and> sub_match (lines ! i) = Some m"
    with assms(2) have "opens_sub (lines ! i)" by (simp add: opens_sub_def)
    from pbl_sub[OF assms(1) u this] h
    show "parse_block_loop pkg lines i st =
              parse_block_loop pkg lines (i + scan_braces lines i (brace_delta (lines ! i)) + 1)
                (st\<lparr>methods := methods st @
                   [make_sub pkg (groups m ! 0)
                      (take (scan_braces lines i (brace_delta (lines ! i)) + 1) (drop i lines))]\<rparr>)"
      by simp
  qed
  have c: "\<forall>d\<in>set (methods (parse_block_content lines pkg)).
            \<exists>j<length lines. opens_sub (lines ! j)
               \<and> sd_name d = groups (the (sub_match (lines ! j))) ! 0"
    unfolding parse_block_content_def by (rule pbl_methods_origin) simp
  from a b c show ?thesis by blast
qed

theorem C5_brace_on_keyword_line_witness:
  "startswith (strip (c5_lines ! 0)) ''sub ''
   \<and> CHR ''{'' \<notin> set (c5_lines ! 0)
   \<and> parse_block_loop (Some ''P'') c5_lines 0 no_content =
       parse_block_loop (Some ''P'') c5_lines (Suc 0)
         (no_content\<lparr>execution_lines := execution_lines no_content @ [c5_lines ! 0]\<rparr>)
   \<and> startswith (strip (c5_lines_same_line ! 0)) ''sub ''
   \<and> CHR ''{'' \<in> set (c5_lines_same_line ! 0)
   \<and> sub_match (c5_lines_same_line ! 0) = Some \<lparr>group0 = ''sub foo'', groups = [''foo'']\<rparr>
   \<and> parse_block_loop (Some ''P'') c5_lines_same_line 0 no_content =
       parse_block_loop (Some ''P'') c5_lines_same_line
         (0 + scan_braces c5_lines_same_line 0 (brace_delta (c5_lines_same_line ! 0)) + 1)
         (no_content\<lparr>methods := methods no_content @
            [make_sub (Some ''P'') (groups \<lparr>group0 = ''sub foo'', groups = [''foo'']\<rparr> ! 0)
               (take (scan_braces c5_lines_same_line 0 (brace_delta (c5_lines_same_line ! 0)) + 1)
                  (drop 0 c5_lines_same_line))]\<rparr>)"
proof -
  let ?m = "\<lparr>group0 = ''sub foo'', groups = [''foo'']\<rparr>"
  have h1: "startswith (strip (c5_lines ! 0)) ''sub ''"
    by (simp add: c5_lines_def ln_def strip_def is_space_def startswith_def)
  have h2: "CHR ''{'' \<notin> set (c5_lines ! 0)"
    by (simp add: c5_lines_def ln_def)
  have h3: "startswith (strip (c5_lines_same_line ! 0)) ''sub ''"
    by (simp add: c5_lines_same_line_def ln_def strip_def is_space_def startswith_def)
  have h4: "CHR ''{'' \<in> set (c5_lines_same_line ! 0)"
    by (simp add: c5_lines_same_line_def ln_def)
  have h5: "sub_match (c5_lines_same_line ! 0) = Some ?m"
    by code_simp
  have l1: "0 < length c5_lines" by (simp add: c5_lines_def)
  have l2: "0 < length c5_lines_same_line" by (simp add: c5_lines_same_line_def)
  from C5_brace_on_keyword_line[OF l1 h1, of "Some ''P''" no_content ?m] h2
  have e1: "parse_block_loop (Some ''P'') c5_lines 0 no_content =
       parse_block_loop (Some ''P'') c5_lines (Suc 0)
         (no_content\<lparr>execution_lines := execution_lines no_content @ [c5_lines ! 0]\<rparr>)"
    by blast
  from C5_brace_on_keyword_line[OF l2 h3, of "Some ''P''" no_content ?m] h4 h5
  have e2: "parse_block_loop (Some ''P'') c5_lines_same_line 0 no_content =
       parse_block_loop (Some ''P'') c5_lines_same_line
         (0 + scan_braces c5_lines_same_line 0 (brace_delta (c5_lines_same_line ! 0)) + 1)
         (no_content\<lparr>methods := methods no_content @
            [make_sub (Some ''P'') (groups ?m ! 0)
               (take (scan_braces c5_lines_same_line 0 (brace_delta (c5_lines_same_line ! 0)) + 1)
                  (drop 0 c5_lines_same_line))]\<rparr>)"
    by blast
  from h1 h2 e1 h3 h4 h5 e2 show ?thesis by - (intro conjI; assumption)
qed

subsection \<open>Definitions that are never closed\<close>

text \<open>
  When a line opens a definition and the brace counter stays positive on every line up to
  the last but one, the classifier consumes the lines to the end of the block, appends
  exactly one definition for them and is done with the block: a total function, no
  error.  When the consumed text has a closing brace after its first opening brace, the
  body is the text between the first opening brace and the last closing brace, stripped.
\<close>

lemma unbalanced_definition_consumed:
  assumes "i < length lines"
    and "startswith (strip (lines ! i)) ''sub ''"
    and "sub_match (lines ! i) = Some m"
    and "CHR ''{'' \<in> set (lines ! i)"
    and "\<forall>j. i \<le> j \<and> Suc j < length lines \<longrightarrow> 0 < brace_count_after lines i j"
  shows "parse_block_loop pkg lines i st =
           st\<lparr>methods := methods st @ [make_sub pkg (groups m ! 0) (drop i lines)]\<rparr>
       \<and> (\<forall>pre mid post.
             concat (drop i lines) = pre @ CHR ''{'' # mid @ CHR ''}'' # post
             \<and> CHR ''{'' \<notin> set pre \<and> CHR ''}'' \<notin> set post
             \<longrightarrow> sd_body (make_sub pkg (groups m ! 0) (drop i lines)) = strip mid)"
proof -
  have u: "use_match (lines ! i) = None" by (rule use_match_sub_line[OF assms(2)])
  have o: "opens_sub (lines ! i)" using assms(2-4) by (simp add: opens_sub_def)
  have d: "drop i lines = lines ! i # drop (Suc i) lines"
    using assms(1) by (simp add: Cons_nth_drop_Suc)
  have "\<forall>j. i \<le> j \<and> Suc j < length lines \<longrightarrow>
       0 < brace_delta (lines ! i) + sum_list (map brace_delta (take (j - i) (drop (Suc i) lines)))"
  proof (intro allI impI)
    fix j assume j: "i \<le> j \<and> Suc j < length lines"
    then have "Suc j - i = Suc (j - i)" by arith
    with assms(5)[rule_format, OF j] d
    show "0 < brace_delta (lines ! i) + sum_list (map brace_delta (take (j - i) (drop (Suc i) lines)))"
      by (simp add: brace_count_after_def)
  qed
  from scan_braces_to_end[OF assms(1) this]
  have k: "scan_braces lines i (brace_delta (lines ! i)) = length lines - 1 - i" .
  have e: "i + (length lines - 1 - i) + 1 = length lines" using assms(1) by simp
  have t: "take (length lines - 1 - i + 1) (drop i lines) = drop i lines" by simp
  have "parse_block_loop pkg lines i st =
          parse_block_loop pkg lines (length lines)
            (st\<lparr>methods := methods st @ [make_sub pkg (groups m ! 0) (drop i lines)]\<rparr>)"
    using pbl_sub[OF assms(1) u o, of pkg st] assms(3) by (simp only: k e t option.sel)
  then have 1: "parse_block_loop pkg lines i st =
           st\<lparr>methods := methods st @ [make_sub pkg (groups m ! 0) (drop i lines)]\<rparr>"
    by (simp add: pbl_end)
  have 2: "\<forall>pre mid post.
             concat (drop i lines) = pre @ CHR ''{'' # mid @ CHR ''}'' # post
             \<and> CHR ''{'' \<notin> set pre \<and> CHR ''}'' \<notin> set post
             \<longrightarrow> sd_body (make_sub pkg (groups m ! 0) (drop i lines)) = strip mid"
    by (auto simp: make_sub_def Let_def extract_body_between)
  from 1 2 show ?thesis by blast
qed

lemma unbalanced_definition_consumed_example:
  "startswith (strip (c6_lines_inner ! 0)) ''sub ''
   \<and> sub_match (c6_lines_inner ! 0) = Some \<lparr>group0 = ''sub foo'', groups = [''foo'']\<rparr>
   \<and> CHR ''{'' \<in> set (c6_lines_inner ! 0)
   \<and> map (brace_count_after c6_lines_inner 0) [0, 1, 2, 3] = [1, 2, 2, 1]
   \<and> parse_block_loop (Some ''P'') c6_lines_inner 0 no_content =
       no_content\<lparr>methods := methods no_content @
         [make_sub (Some ''P'') ''foo'' (drop 0 c6_lines_inner)]\<rparr>
   \<and> concat (drop 0 c6_lines_inner) =
       ''sub foo '' @ CHR ''{'' # (ln [] @ ln ''  if ($x) {'' @ ln ''    return 1;'' @ ''  '')
         @ CHR ''}'' # (ln [] @ ''  return 2;'')
   \<and> sd_body (make_sub (Some ''P'') ''foo'' (drop 0 c6_lines_inner)) =
       strip (ln [] @ ln ''  if ($x) {'' @ ln ''    return 1;'' @ ''  '')"
proof -
  let ?m = "\<lparr>group0 = ''sub foo'', groups = [''foo'']\<rparr>"
  let ?mid = "ln [] @ ln ''  if ($x) {'' @ ln ''    return 1;'' @ ''  ''"
  have l: "0 < length c6_lines_inner" by (simp add: c6_lines_inner_def)
  have h1: "startswith (strip (c6_lines_inner ! 0)) ''sub ''"
    by (simp add: c6_lines_inner_def ln_def strip_def is_space_def startswith_def)
  have h2: "sub_match (c6_lines_inner ! 0) = Some ?m"
    by code_simp
  have h3: "CHR ''{'' \<in> set (c6_lines_inner ! 0)"
    by (simp add: c6_lines_inner_def ln_def)
  have h4: "map (brace_count_after c6_lines_inner 0) [0, 1, 2, 3] = [1, 2, 2, 1]"
    by code_simp
  have h5: "\<forall>j. 0 \<le> j \<and> Suc j < length c6_lines_inner \<longrightarrow> 0 < brace_count_after c6_lines_inner 0 j"
  proof (intro allI impI)
    fix j assume "0 \<le> j \<and> Suc j < length c6_lines_inner"
    then have "j = 0 \<or> j = 1 \<or> j = 2 \<or> j = 3"
      by (auto simp: c6_lines_inner_def)
    with h4 show "0 < brace_count_after c6_lines_inner 0 j" by auto
  qed
  have g: "groups ?m ! 0 = ''foo''" by simp
  note T = unbalanced_definition_consumed[OF l h1 h2 h3 h5, of "Some ''P''" no_content, unfolded g]
  from T have e: "parse_block_loop (Some ''P'') c6_lines_inner 0 no_content =
       no_content\<lparr>methods := methods no_content @
         [make_sub (Some ''P'') ''foo'' (drop 0 c6_lines_inner)]\<rparr>"
    by (rule conjunct1)
  have c: "concat (drop 0 c6_lines_inner) =
       ''sub foo '' @ CHR ''{'' # ?mid @ CHR ''}'' # (ln [] @ ''  return 2;'')"
    by (simp add: c6_lines_inner_def ln_def)
  have p1: "CHR ''{'' \<notin> set ''sub foo ''" by simp
  have p2: "CHR ''}'' \<notin> set (ln [] @ ''  return 2;'')" by (simp add: ln_def)
  from T have "\<forall>pre mid post.
             concat (drop 0 c6_lines_inner) = pre @ CHR ''{'' # mid @ CHR ''}'' # post
             \<and> CHR ''{'' \<notin> set pre \<and> CHR ''}'' \<notin> set post
             \<longrightarrow> sd_body (make_sub (Some ''P'') ''foo'' (drop 0 c6_lines_inner)) = strip mid"
    by (rule conjunct2)
  from this[rule_format, of "''sub foo ''" ?mid "ln [] @ ''  return 2;''"] c p1 p2
  have b: "sd_body (make_sub (Some ''P'') ''foo'' (drop 0 c6_lines_inner)) = strip ?mid"
    by blast
  from h1 h2 h3 h4 e c b show ?thesis by - (intro conjI; assumption)
qed


subsection \<open>Soundness of the matcher\<close>

lemma star_n_sound:
  assumes f: "\<And>s x. x \<in> set (f s) \<Longrightarrow> fst x = [] \<and> (\<exists>pre. s = pre @ snd x \<and> list_all P pre)"
  shows "x \<in> set (star_n n f s) \<Longrightarrow> fst x = [] \<and> (\<exists>pre. s = pre @ snd x \<and> list_all P pre)"
proof (induction n arbitrary: s x)
  case 0
  then show ?case by auto
next
  case (Suc n)
  from Suc.prems consider (stop) "x = ([], s)"
    | (more) c1 s1 c2 s2 where "(c1, s1) \<in> set (f s)" "(c2, s2) \<in> set (star_n n f s1)" "x = (c1 @ c2, s2)"
    by (auto split: if_splits)
  then show ?case
  proof cases
    case stop
    then show ?thesis by auto
  next
    case more
    from f[OF more(1)] obtain p1 where p1: "c1 = []" "s = p1 @ s1" "list_all P p1" by auto
    from Suc.IH[OF more(2)] obtain p2 where p2: "c2 = []" "s1 = p2 @ s2" "list_all P p2" by auto
    from p1 p2 more(3) show ?thesis by auto
  qed
qed

lemma rmatch_sound:
  "regular r \<Longrightarrow> x \<in> set (rmatch r s) \<Longrightarrow>
   length (fst x) = ngroups r \<and> (\<exists>pre. s = pre @ snd x \<and> list_all (rx_chars r) pre)"
proof (induction r arbitrary: s x)
  case Eps
  then show ?case by auto
next
  case (Lit c)
  then show ?case by (auto split: list.splits if_splits)
next
  case (Cls p)
  then show ?case by (auto split: list.splits if_splits)
next
  case (Seq a b)
  from Seq.prems obtain c1 s1 c2 s2 where
    m: "(c1, s1) \<in> set (rmatch a s)" "(c2, s2) \<in> set (rmatch b s1)" "x = (c1 @ c2, s2)"
    by auto
  from Seq.IH(1)[OF _ m(1)] Seq.prems(1)
  obtain p1 where p1: "length c1 = ngroups a" "s = p1 @ s1" "list_all (rx_chars a) p1" by auto
  from Seq.IH(2)[OF _ m(2)] Seq.prems(1)
  obtain p2 where p2: "length c2 = ngroups b" "s1 = p2 @ s2" "list_all (rx_chars b) p2" by auto
  from p1 p2 m(3) show ?case
    by (intro conjI exI[of _ "p1 @ p2"]) (auto simp: list_all_iff)
next
  case (Alt a b)
  from Alt.prems consider "x \<in> set (rmatch a s)" | "x \<in> set (rmatch b s)" by auto
  then show ?case
  proof cases
    case 1
    from Alt.IH(1)[OF _ 1] Alt.prems(1) show ?thesis by (auto simp: list_all_iff)
  next
    case 2
    from Alt.IH(2)[OF _ 2] Alt.prems(1) show ?thesis by (auto simp: list_all_iff)
  qed
next
  case (Star a)
  have f: "\<And>s x. x \<in> set (rmatch a s) \<Longrightarrow> fst x = [] \<and> (\<exists>pre. s = pre @ snd x \<and> list_all (rx_chars a) pre)"
    using Star.IH Star.prems(1) by auto
  from Star.prems(2) have "x \<in> set (star_n (length s) (rmatch a) s)" by simp
  from star_n_sound[of "rmatch a" "rx_chars a", OF f this] show ?case by simp
next
  case (Grp a)
  from Grp.prems obtain c s1 where m: "(c, s1) \<in> set (rmatch a s)" "x = (take (length s - length s1) s # c, s1)"
    by auto
  from Grp.IH[OF _ m(1)] Grp.prems(1) m(2) show ?case by auto
qed

lemma re_match_sound:
  assumes "regular r" "re_match r s = Some m"
  shows "length (groups m) = ngroups r \<and> list_all (rx_chars r) (group0 m)"
proof -
  from assms(2) obtain caps rest xs where x: "rmatch r s = (caps, rest) # xs"
    "m = \<lparr>group0 = take (length s - length rest) s, groups = caps\<rparr>"
    by (auto simp: re_match_def split: list.splits)
  then have "(caps, rest) \<in> set (rmatch r s)" by simp
  from rmatch_sound[OF assms(1) this] obtain pre where "length caps = ngroups r" "s = pre @ rest" "list_all (rx_chars r) pre"
    by auto
  with x(2) show ?thesis by simp
qed

lemma finditer_sound:
  "regular r \<Longrightarrow> m \<in> set (finditer r s) \<Longrightarrow>
   length (groups m) = ngroups r \<and> list_all (rx_chars r) (group0 m)"
proof (induction r s rule: finditer.induct)
  case (1 r s)
  show ?case
  proof (cases "s = []")
    case True
    with "1.prems" show ?thesis by (simp add: finditer.simps)
  next
    case False
    show ?thesis
    proof (cases "re_match r s")
      case None
      with False "1.prems" have "m \<in> set (finditer r (tl s))"
        by (subst (asm) finditer.simps) simp
      from "1.IH"(1)[OF False None "1.prems"(1) this] show ?thesis .
    next
      case (Some m')
      show ?thesis
      proof (cases "group0 m' = []")
        case True
        with False Some "1.prems" have "m \<in> set (finditer r (tl s))"
          by (subst (asm) finditer.simps) simp
        from "1.IH"(2)[OF False Some True "1.prems"(1) this] show ?thesis .
      next
        case ne: False
        with False Some "1.prems"
        have "m = m' \<or> m \<in> set (finditer r (drop (length (group0 m')) s))"
          by (subst (asm) finditer.simps) simp
        then show ?thesis
        proof
          assume "m = m'"
          with re_match_sound[OF "1.prems"(1) Some] show ?thesis by simp
        next
          assume "m \<in> set (finditer r (drop (length (group0 m')) s))"
          from "1.IH"(3)[OF False Some ne "1.prems"(1) this] show ?thesis .
        qed
      qed
    qed
  qed
qed




text \<open>
  Every match of a pattern of the source fills exactly the groups of the pattern, so
  each group the source reads from a match object exists.
\<close>

lemma pkg_match_groups: "pkg_match l = Some m \<Longrightarrow> length (groups m) = 1"
  using re_match_sound[of pkg_rx "strip l" m]
  by (simp add: pkg_match_def pkg_rx_def Plus_def Opt_def ws_def lit_def)

lemma use_match_groups: "use_match l = Some m \<Longrightarrow> length (groups m) = 2"
  using re_match_sound[of use_rx "strip l" m]
  by (simp add: use_match_def use_rx_def Plus_def Opt_def ws_def lit_def)

lemma sub_match_groups: "sub_match l = Some m \<Longrightarrow> length (groups m) = 1"
  using re_match_sound[of sub_rx "strip l" m]
  by (simp add: sub_match_def sub_rx_def Plus_def ws_def lit_def)

lemma re_search_sound:
  "regular r \<Longrightarrow> re_search r s = Some m \<Longrightarrow> length (groups m) = ngroups r"
  by (induction s) (auto dest: re_match_sound split: option.splits)

lemma param_groups: "re_search param_rx body = Some m \<Longrightarrow> length (groups m) = 1"
  using re_search_sound[of param_rx body m]
  by (simp add: param_rx_def Plus_def ws_def lit_def)

lemma call_pattern_groups:
  assumes "m \<in> set (finditer p code)"
  shows "(p = object_method_rx \<or> p = package_function_rx \<longrightarrow> length (groups m) = 2)
       \<and> (p = direct_function_rx \<or> p = constructor_rx \<longrightarrow> length (groups m) = 1)"
proof -
  have r: "regular object_method_rx" "regular package_function_rx"
          "regular direct_function_rx" "regular constructor_rx"
    by (simp_all add: object_method_rx_def package_function_rx_def direct_function_rx_def
        constructor_rx_def qualified_rx_def Plus_def word_def ws_def lit_def)
  have n: "ngroups object_method_rx = 2" "ngroups package_function_rx = 2"
          "ngroups direct_function_rx = 1" "ngroups constructor_rx = 1"
    by (simp_all add: object_method_rx_def package_function_rx_def direct_function_rx_def
        constructor_rx_def qualified_rx_def Plus_def word_def ws_def lit_def)
  from assms r n show ?thesis by (auto dest: finditer_sound)
qed

subsection \<open>Direct-function calls\<close>






subsection \<open>The symbol registry\<close>














subsection \<open>Dependencies\<close>

lemma depends_on_add:
  "depends_on (add_dependency f t deps) f' =
     (if f' = f then insert t (depends_on deps f) else depends_on deps f')"
  by (auto simp: depends_on_def add_dependency_def update_conv' split: option.splits)

lemma dependency_loop_edges:
  "list_all well_formed_use us \<Longrightarrow>
   \<exists>deps. dependency_loop defs us deps0 = Inr deps
     \<and> (\<forall>f. depends_on deps f = depends_on deps0 f
            \<union> {t. \<exists>u\<in>set us. us_source_file u = Some f \<and> import_target defs u = Some t})"
proof (induction us arbitrary: deps0)
  case Nil
  then show ?case by simp
next
  case (Cons u us)
  from Cons.prems obtain tok rest file_of_use where
    u: "split_ws (us_module u) = tok # rest" "us_source_file u = Some file_of_use"
    by (cases "split_ws (us_module u)"; cases "us_source_file u") (auto simp: well_formed_use_def)
  from Cons.prems have wf: "list_all well_formed_use us" by simp
  show ?case
  proof (cases "map_of defs tok")
    case None
    then have t: "import_target defs u = None" by (simp add: import_target_def u)
    from Cons.IH[OF wf, of deps0] obtain deps where
      d: "dependency_loop defs us deps0 = Inr deps"
         "\<forall>f. depends_on deps f = depends_on deps0 f
            \<union> {t. \<exists>u\<in>set us. us_source_file u = Some f \<and> import_target defs u = Some t}"
      by blast
    have "dependency_loop defs (u # us) deps0 = Inr deps" using d(1) None u by simp
    moreover have "\<forall>f. depends_on deps f = depends_on deps0 f
            \<union> {t. \<exists>u\<in>set (u # us). us_source_file u = Some f \<and> import_target defs u = Some t}"
      using d(2) t by auto
    ultimately show ?thesis by blast
  next
    case (Some info)
    then have t: "import_target defs u = Some (pi_file info)" by (simp add: import_target_def u)
    let ?d1 = "add_dependency file_of_use (pi_file info) deps0"
    from Cons.IH[OF wf, of ?d1] obtain deps where
      d: "dependency_loop defs us ?d1 = Inr deps"
         "\<forall>f. depends_on deps f = depends_on ?d1 f
            \<union> {t. \<exists>u\<in>set us. us_source_file u = Some f \<and> import_target defs u = Some t}"
      by blast
    have "dependency_loop defs (u # us) deps0 = Inr deps" using d(1) Some u by simp
    moreover have "\<forall>f. depends_on deps f = depends_on deps0 f
            \<union> {t. \<exists>u\<in>set (u # us). us_source_file u = Some f \<and> import_target defs u = Some t}"
      using d(2) t u(2) by (auto simp: depends_on_add)
    ultimately show ?thesis by blast
  qed
qed

lemma map_of_define_package:
  "map_of (define_package fp defs p) n =
     (if n = pd_name p then Some \<lparr>pi_file = fp, pi_methods = map sd_name (pd_methods p)\<rparr>
      else map_of defs n)"
  by (simp add: define_package_def update_conv')

lemma define_packages_file:
  "map_of (foldl (define_package fp) defs pkgs) n = Some info \<Longrightarrow>
   map_of defs n = Some info \<or> (pi_file info = fp \<and> (\<exists>p\<in>set pkgs. pd_name p = n))"
proof (induction pkgs arbitrary: defs)
  case Nil
  then show ?case by simp
next
  case (Cons p pkgs)
  from Cons.IH[of "define_package fp defs p"] Cons.prems
  show ?case by (auto simp: map_of_define_package split: if_splits)
qed

lemma define_packages_known:
  "map_of defs n \<noteq> None \<or> (\<exists>p\<in>set pkgs. pd_name p = n) \<Longrightarrow>
   map_of (foldl (define_package fp) defs pkgs) n \<noteq> None"
proof (induction pkgs arbitrary: defs)
  case Nil
  then show ?case by simp
next
  case (Cons p pkgs)
  have "map_of (define_package fp defs p) n \<noteq> None \<or> (\<exists>p\<in>set pkgs. pd_name p = n)"
    using Cons.prems by (auto simp: map_of_define_package)
  from Cons.IH[OF this] show ?case by simp
qed

lemma package_definitions_origin:
  "map_of (package_definitions_of files) n = Some info \<Longrightarrow>
   \<exists>f\<in>set files. pi_file info = pf_source_file f \<and> (\<exists>p\<in>set (pf_packages f). pd_name p = n)"
proof (induction files arbitrary: info rule: rev_induct)
  case Nil
  then show ?case by (simp add: package_definitions_of_def)
next
  case (snoc f files)
  from snoc.prems
  have "map_of (foldl (define_package (pf_source_file f)) (package_definitions_of files)
          (pf_packages f)) n = Some info"
    by (simp add: package_definitions_of_def)
  from define_packages_file[OF this] snoc.IH show ?case by auto
qed

lemma package_definitions_known:
  "\<exists>f\<in>set files. \<exists>p\<in>set (pf_packages f). pd_name p = n \<Longrightarrow>
   map_of (package_definitions_of files) n \<noteq> None"
proof (induction files rule: rev_induct)
  case Nil
  then show ?case by simp
next
  case (snoc f files)
  have "map_of (package_definitions_of files) n \<noteq> None \<or> (\<exists>p\<in>set (pf_packages f). pd_name p = n)"
    using snoc by auto
  from define_packages_known[OF this, of "pf_source_file f"]
  show ?case by (simp add: package_definitions_of_def)
qed

text \<open>
  C7, as stated, fails: \<open>main.pl\<close> declares the package \<open>Util\<close> and imports it in its
  package \<open>main\<close>; the analysis gives \<open>main.pl\<close> a dependency edge to itself.
\<close>

theorem C7_counterexample:
  "create_ast_from_file c7_fs ''main.pl'' = Some c7_file
   \<and> analyze_dependencies [c7_file]
       = Inr ([(''main.pl'', [''main.pl''])],
              [(''Util'', \<lparr>pi_file = ''main.pl'', pi_methods = [''help'']\<rparr>),
               (''main'', \<lparr>pi_file = ''main.pl'', pi_methods = []\<rparr>)])"
proof -
  have a: "create_ast_from_file c7_fs ''main.pl'' = Some c7_file" by code_simp
  have b: "analyze_dependencies [c7_file]
       = Inr ([(''main.pl'', [''main.pl''])],
              [(''Util'', \<lparr>pi_file = ''main.pl'', pi_methods = [''help'']\<rparr>),
               (''main'', \<lparr>pi_file = ''main.pl'', pi_methods = []\<rparr>)])" by code_simp
  from a b show ?thesis by (rule conjI)
qed

text \<open>
  C7, amended: when every import has a token in its module text, the analysis returns,
  and a file \<open>f\<close> has a dependency edge to a file \<open>t\<close> exactly when some import of \<open>f\<close> names,
  by the first token of its module text, a known package whose owning file is \<open>t\<close>.  The
  known packages are the packages declared in the processed files, each owned by a file
  that declares it.  There is no test that \<open>t\<close> differs from \<open>f\<close>: a file that imports a
  package of its own gets an edge to itself.
\<close>

theorem C7_dependency_edges:
  assumes "list_all well_formed_use (collect_uses files)"
  shows "\<exists>deps. analyze_dependencies files = Inr (deps, package_definitions_of files)
     \<and> (\<forall>f t. t \<in> depends_on deps f \<longleftrightarrow>
           (\<exists>u\<in>set (collect_uses files). us_source_file u = Some f
              \<and> import_target (package_definitions_of files) u = Some t))
     \<and> (\<forall>n. map_of (package_definitions_of files) n \<noteq> None \<longleftrightarrow>
           (\<exists>f\<in>set files. \<exists>p\<in>set (pf_packages f). pd_name p = n))
     \<and> (\<forall>n info. map_of (package_definitions_of files) n = Some info \<longrightarrow>
           (\<exists>f\<in>set files. pi_file info = pf_source_file f
              \<and> (\<exists>p\<in>set (pf_packages f). pd_name p = n)))"
proof -
  from dependency_loop_edges[OF assms, of "package_definitions_of files" "[]"]
  obtain deps where
    d: "dependency_loop (package_definitions_of files) (collect_uses files) [] = Inr deps"
       "\<forall>f. depends_on deps f = depends_on [] f
            \<union> {t. \<exists>u\<in>set (collect_uses files). us_source_file u = Some f
                  \<and> import_target (package_definitions_of files) u = Some t}"
    by blast
  have 1: "analyze_dependencies files = Inr (deps, package_definitions_of files)"
    using d(1) by (simp add: analyze_dependencies_def Let_def)
  have 2: "\<forall>f t. t \<in> depends_on deps f \<longleftrightarrow>
           (\<exists>u\<in>set (collect_uses files). us_source_file u = Some f
              \<and> import_target (package_definitions_of files) u = Some t)"
    using d(2) by (auto simp: depends_on_def)
  have 3: "\<forall>n. map_of (package_definitions_of files) n \<noteq> None \<longleftrightarrow>
           (\<exists>f\<in>set files. \<exists>p\<in>set (pf_packages f). pd_name p = n)"
    using package_definitions_origin[of files] package_definitions_known[of files] by blast
  have 4: "\<forall>n info. map_of (package_definitions_of files) n = Some info \<longrightarrow>
           (\<exists>f\<in>set files. pi_file info = pf_source_file f
              \<and> (\<exists>p\<in>set (pf_packages f). pd_name p = n))"
    using package_definitions_origin[of files] by blast
  from 1 2 3 4 show ?thesis by blast
qed

theorem C7_dependency_edges_witness:
  "list_all well_formed_use (collect_uses [c7_file])
   \<and> analyze_dependencies [c7_file] = Inr ([(''main.pl'', [''main.pl''])], package_definitions_of [c7_file])
   \<and> ''main.pl'' \<in> depends_on [(''main.pl'', [''main.pl''])] ''main.pl''
   \<and> import_target (package_definitions_of [c7_file])
        \<lparr>us_module = ''Util'', us_source_file = Some ''main.pl''\<rparr> = Some ''main.pl''"
proof -
  have h: "list_all well_formed_use (collect_uses [c7_file])" by code_simp
  have a: "analyze_dependencies [c7_file]
       = Inr ([(''main.pl'', [''main.pl''])], package_definitions_of [c7_file])" by code_simp
  from C7_dependency_edges[OF h] obtain deps where
    d: "analyze_dependencies [c7_file] = Inr (deps, package_definitions_of [c7_file])"
       "\<forall>f t. t \<in> depends_on deps f \<longleftrightarrow>
           (\<exists>u\<in>set (collect_uses [c7_file]). us_source_file u = Some f
              \<and> import_target (package_definitions_of [c7_file]) u = Some t)"
    by blast
  from d(1) a have e: "deps = [(''main.pl'', [''main.pl''])]" by simp
  have u: "\<lparr>us_module = ''Util'', us_source_file = Some ''main.pl''\<rparr> \<in> set (collect_uses [c7_file])"
    by code_simp
  have t: "import_target (package_definitions_of [c7_file])
        \<lparr>us_module = ''Util'', us_source_file = Some ''main.pl''\<rparr> = Some ''main.pl''"
    by code_simp
  from d(2) u t have "''main.pl'' \<in> depends_on deps ''main.pl''"
    by (metis use_statement.select_convs(2))
  with e have m: "''main.pl'' \<in> depends_on [(''main.pl'', [''main.pl''])] ''main.pl''" by simp
  from h a m t show ?thesis by - (intro conjI; assumption)
qed

subsection \<open>Aggregation of relationships\<close>

lemma observed_iff:
  "v \<in> observed prop rels k \<longleftrightarrow>
     (\<exists>x\<in>set rels. rel_key_of x = k \<and> map_of (properties x) prop = Some v)"
  unfolding observed_def
  by (induction rels) (auto simp: map_filter_simps split: option.splits)

lemma map_of_agg_step:
  "map_of (agg_step acc r) k =
     (if k = rel_key_of r
      then Some (let d0 = (case map_of acc (rel_key_of r) of Some d \<Rightarrow> d | None \<Rightarrow> agg_default);
          d1 = d0\<lparr>ag_count := ag_count d0 + 1\<rparr>;
          d2 = (if ag_properties d1 = [] then d1\<lparr>ag_properties := properties r\<rparr> else d1);
          d3 = (case map_of (properties r) ''call_pattern'' of
                  Some v \<Rightarrow> d2\<lparr>ag_call_patterns := List.insert v (ag_call_patterns d2)\<rparr>
                | None \<Rightarrow> d2);
          d4 = (case map_of (properties r) ''call_type'' of
                  Some v \<Rightarrow> d3\<lparr>ag_call_types := List.insert v (ag_call_types d3)\<rparr>
                | None \<Rightarrow> d3)
        in d4)
      else map_of acc k)"
  by (simp add: agg_step_def Let_def update_conv')

lemma observed_snoc:
  "observed prop (rels @ [r]) k =
     observed prop rels k \<union> (if rel_key_of r = k then (case map_of (properties r) prop of Some v \<Rightarrow> {v} | None \<Rightarrow> {}) else {})"
  by (auto simp: observed_iff split: option.splits if_splits)

lemma collapsed_snoc:
  "collapsed (rels @ [r]) k = collapsed rels k + (if rel_key_of r = k then 1 else 0)"
  by (simp add: collapsed_def)

lemma agg_ok_default: "k \<notin> rel_key_of ` set rels \<Longrightarrow> agg_ok rels k agg_default"
  by (auto simp: agg_ok_def agg_default_def collapsed_def observed_iff filter_empty_conv)

lemma agg_ok_step:
  assumes "agg_ok rels (rel_key_of r) d0"
  shows "agg_ok (rels @ [r]) (rel_key_of r)
     (let d1 = d0\<lparr>ag_count := ag_count d0 + 1\<rparr>;
          d2 = (if ag_properties d1 = [] then d1\<lparr>ag_properties := properties r\<rparr> else d1);
          d3 = (case map_of (properties r) ''call_pattern'' of
                  Some v \<Rightarrow> d2\<lparr>ag_call_patterns := List.insert v (ag_call_patterns d2)\<rparr>
                | None \<Rightarrow> d2);
          d4 = (case map_of (properties r) ''call_type'' of
                  Some v \<Rightarrow> d3\<lparr>ag_call_types := List.insert v (ag_call_types d3)\<rparr>
                | None \<Rightarrow> d3)
        in d4)"
  using assms
  by (auto simp: agg_ok_def Let_def observed_snoc collapsed_snoc split: option.splits)

lemma agg_ok_other:
  "rel_key_of r \<noteq> k \<Longrightarrow> agg_ok rels k d \<Longrightarrow> agg_ok (rels @ [r]) k d"
  by (simp add: agg_ok_def observed_snoc collapsed_snoc)

lemma agg_invariant:
  "distinct (map fst (foldl agg_step [] rels))
   \<and> (\<forall>k. map_of (foldl agg_step [] rels) k = None \<longleftrightarrow> k \<notin> rel_key_of ` set rels)
   \<and> (\<forall>k d. map_of (foldl agg_step [] rels) k = Some d \<longrightarrow> agg_ok rels k d)"
proof (induction rels rule: rev_induct)
  case Nil
  show ?case by simp
next
  case (snoc r rels)
  let ?acc = "foldl agg_step [] rels"
  from snoc have d: "distinct (map fst ?acc)"
    and n: "\<And>k. map_of ?acc k = None \<longleftrightarrow> k \<notin> rel_key_of ` set rels"
    and o: "\<And>k d. map_of ?acc k = Some d \<Longrightarrow> agg_ok rels k d"
    by blast+
  have 1: "distinct (map fst (foldl agg_step [] (rels @ [r])))"
    using d by (simp add: agg_step_def Let_def distinct_update)
  have 2: "\<forall>k. map_of (foldl agg_step [] (rels @ [r])) k = None \<longleftrightarrow> k \<notin> rel_key_of ` set (rels @ [r])"
    using n by (auto simp: map_of_agg_step)
  have 3: "\<forall>k d. map_of (foldl agg_step [] (rels @ [r])) k = Some d \<longrightarrow> agg_ok (rels @ [r]) k d"
  proof (intro allI impI)
    fix k d assume a: "map_of (foldl agg_step [] (rels @ [r])) k = Some d"
    show "agg_ok (rels @ [r]) k d"
    proof (cases "k = rel_key_of r")
      case False
      with a have "map_of ?acc k = Some d" by (simp add: map_of_agg_step)
      from agg_ok_other[OF _ o[OF this]] False show ?thesis by auto
    next
      case True
      have "agg_ok rels (rel_key_of r) (case map_of ?acc (rel_key_of r) of Some d \<Rightarrow> d | None \<Rightarrow> agg_default)"
      proof (cases "map_of ?acc (rel_key_of r)")
        case None
        with n have "rel_key_of r \<notin> rel_key_of ` set rels" by blast
        from agg_ok_default[OF this] None show ?thesis by simp
      next
        case (Some d0)
        from o[OF Some] Some show ?thesis by simp
      qed
      from agg_ok_step[OF this] a True show ?thesis
        by (simp add: map_of_agg_step Let_def)
    qed
  qed
  from 1 2 3 show ?case by blast
qed


lemma rel_key_agg_result: "rel_key_of (agg_result (k, d)) = k"
  by (cases k) (simp add: agg_result_def rel_key_of_def Let_def)

lemma call_count_agg_result:
  "map_of (properties (agg_result (k, d))) ''call_count'' = Some (PInt (ag_count d))"
  by (cases k) (simp add: agg_result_def Let_def update_conv')

lemma call_patterns_agg_result:
  "ag_call_patterns d \<noteq> [] \<Longrightarrow>
   map_of (properties (agg_result (k, d))) ''call_patterns'' = Some (PJsonList (ag_call_patterns d))"
  by (cases k) (simp add: agg_result_def Let_def update_conv')

lemma call_types_agg_result:
  "ag_call_types d \<noteq> [] \<Longrightarrow>
   map_of (properties (agg_result (k, d))) ''call_types'' = Some (PJsonList (ag_call_types d))"
  by (cases k) (simp add: agg_result_def Let_def update_conv')

lemma aggregate_relationships_correct:
  "distinct (map rel_key_of (aggregate_relationships rels))
   \<and> set (map rel_key_of (aggregate_relationships rels)) = set (map rel_key_of rels)
   \<and> (\<forall>r\<in>set (aggregate_relationships rels).
         map_of (properties r) ''call_count'' = Some (PInt (int (collapsed rels (rel_key_of r))))
         \<and> (observed ''call_pattern'' rels (rel_key_of r) \<noteq> {} \<longrightarrow>
              (\<exists>vs. map_of (properties r) ''call_patterns'' = Some (PJsonList vs) \<and> distinct vs
                 \<and> set vs = observed ''call_pattern'' rels (rel_key_of r)))
         \<and> (observed ''call_type'' rels (rel_key_of r) \<noteq> {} \<longrightarrow>
              (\<exists>vs. map_of (properties r) ''call_types'' = Some (PJsonList vs) \<and> distinct vs
                 \<and> set vs = observed ''call_type'' rels (rel_key_of r))))"
proof -
  let ?acc = "foldl agg_step [] rels"
  from agg_invariant[of rels] have d: "distinct (map fst ?acc)"
    and n: "\<And>k. map_of ?acc k = None \<longleftrightarrow> k \<notin> rel_key_of ` set rels"
    and o: "\<And>k d. map_of ?acc k = Some d \<Longrightarrow> agg_ok rels k d"
    by blast+
  have "\<And>x. rel_key_of (agg_result x) = fst x"
  proof -
    fix x :: "rel_key \<times> agg_entry"
    show "rel_key_of (agg_result x) = fst x"
      by (cases x) (simp add: rel_key_agg_result)
  qed
  then have keys: "map rel_key_of (aggregate_relationships rels) = map fst ?acc"
    by (simp add: aggregate_relationships_def)
  have 1: "distinct (map rel_key_of (aggregate_relationships rels))"
    using d by (simp only: keys)
  have "fst ` set ?acc = rel_key_of ` set rels"
  proof -
    have "\<And>k. k \<in> fst ` set ?acc \<longleftrightarrow> k \<in> rel_key_of ` set rels"
      using n by (metis map_of_eq_None_iff)
    then show ?thesis by blast
  qed
  then have 2: "set (map rel_key_of (aggregate_relationships rels)) = set (map rel_key_of rels)"
    by (simp only: keys set_map)
  have 3: "\<forall>r\<in>set (aggregate_relationships rels).
         map_of (properties r) ''call_count'' = Some (PInt (int (collapsed rels (rel_key_of r))))
         \<and> (observed ''call_pattern'' rels (rel_key_of r) \<noteq> {} \<longrightarrow>
              (\<exists>vs. map_of (properties r) ''call_patterns'' = Some (PJsonList vs) \<and> distinct vs
                 \<and> set vs = observed ''call_pattern'' rels (rel_key_of r)))
         \<and> (observed ''call_type'' rels (rel_key_of r) \<noteq> {} \<longrightarrow>
              (\<exists>vs. map_of (properties r) ''call_types'' = Some (PJsonList vs) \<and> distinct vs
                 \<and> set vs = observed ''call_type'' rels (rel_key_of r)))"
  proof
    fix r assume "r \<in> set (aggregate_relationships rels)"
    then obtain k e where ke: "(k, e) \<in> set ?acc" "r = agg_result (k, e)"
      by (auto simp: aggregate_relationships_def)
    from ke(1) d have "map_of ?acc k = Some e" by simp
    from o[OF this] have ok: "agg_ok rels k e" .
    have rk: "rel_key_of r = k" by (simp add: ke(2) rel_key_agg_result)
    have a: "map_of (properties r) ''call_count'' = Some (PInt (int (collapsed rels (rel_key_of r))))"
      using ok by (simp add: ke(2) rel_key_agg_result call_count_agg_result agg_ok_def)
    have b: "observed ''call_pattern'' rels (rel_key_of r) \<noteq> {} \<longrightarrow>
              (\<exists>vs. map_of (properties r) ''call_patterns'' = Some (PJsonList vs) \<and> distinct vs
                 \<and> set vs = observed ''call_pattern'' rels (rel_key_of r))"
    proof
      assume "observed ''call_pattern'' rels (rel_key_of r) \<noteq> {}"
      with ok rk have "ag_call_patterns e \<noteq> []" by (auto simp: agg_ok_def)
      from call_patterns_agg_result[OF this, of k] ok
      show "\<exists>vs. map_of (properties r) ''call_patterns'' = Some (PJsonList vs) \<and> distinct vs
                 \<and> set vs = observed ''call_pattern'' rels (rel_key_of r)"
        by (auto simp: ke(2) rel_key_agg_result agg_ok_def)
    qed
    have c: "observed ''call_type'' rels (rel_key_of r) \<noteq> {} \<longrightarrow>
              (\<exists>vs. map_of (properties r) ''call_types'' = Some (PJsonList vs) \<and> distinct vs
                 \<and> set vs = observed ''call_type'' rels (rel_key_of r))"
    proof
      assume "observed ''call_type'' rels (rel_key_of r) \<noteq> {}"
      with ok rk have "ag_call_types e \<noteq> []" by (auto simp: agg_ok_def)
      from call_types_agg_result[OF this, of k] ok
      show "\<exists>vs. map_of (properties r) ''call_types'' = Some (PJsonList vs) \<and> distinct vs
                 \<and> set vs = observed ''call_type'' rels (rel_key_of r)"
        by (auto simp: ke(2) rel_key_agg_result agg_ok_def)
    qed
    from a b c show "map_of (properties r) ''call_count'' = Some (PInt (int (collapsed rels (rel_key_of r))))
         \<and> (observed ''call_pattern'' rels (rel_key_of r) \<noteq> {} \<longrightarrow>
              (\<exists>vs. map_of (properties r) ''call_patterns'' = Some (PJsonList vs) \<and> distinct vs
                 \<and> set vs = observed ''call_pattern'' rels (rel_key_of r)))
         \<and> (observed ''call_type'' rels (rel_key_of r) \<noteq> {} \<longrightarrow>
              (\<exists>vs. map_of (properties r) ''call_types'' = Some (PJsonList vs) \<and> distinct vs
                 \<and> set vs = observed ''call_type'' rels (rel_key_of r)))"
      by blast
  qed
  from 1 2 3 show ?thesis by blast
qed


text \<open>
  C3: in the output of the graph transformer every triple \<open>(from_id, to_id, type)\<close> of a
  raw relationship occurs on exactly one relationship; its \<open>call_count\<close> is the number of
  raw relationships with that triple; and the \<open>call_pattern\<close> and \<open>call_type\<close> values seen
  on them are recorded under \<open>call_patterns\<close> and \<open>call_types\<close> as duplicate-free
  collections holding exactly these values.
\<close>

theorem C3_aggregation_invariant:
  "distinct (map rel_key_of (relationships (transform_perl_ast ast_data)))
   \<and> set (map rel_key_of (relationships (transform_perl_ast ast_data)))
       = set (map rel_key_of (raw_relationships ast_data))
   \<and> (\<forall>r\<in>set (relationships (transform_perl_ast ast_data)).
         map_of (properties r) ''call_count''
           = Some (PInt (int (collapsed (raw_relationships ast_data) (rel_key_of r))))
         \<and> (observed ''call_pattern'' (raw_relationships ast_data) (rel_key_of r) \<noteq> {} \<longrightarrow>
              (\<exists>vs. map_of (properties r) ''call_patterns'' = Some (PJsonList vs) \<and> distinct vs
                 \<and> set vs = observed ''call_pattern'' (raw_relationships ast_data) (rel_key_of r)))
         \<and> (observed ''call_type'' (raw_relationships ast_data) (rel_key_of r) \<noteq> {} \<longrightarrow>
              (\<exists>vs. map_of (properties r) ''call_types'' = Some (PJsonList vs) \<and> distinct vs
                 \<and> set vs = observed ''call_type'' (raw_relationships ast_data) (rel_key_of r))))"
proof -
  have e: "relationships (transform_perl_ast ast_data)
             = aggregate_relationships (raw_relationships ast_data)"
    by (simp add: transform_perl_ast_def)
  show ?thesis unfolding e by (rule aggregate_relationships_correct)
qed

theorem C3_aggregation_invariant_witness:
  "create_ast_from_file zoo_fs ''lib/Animal.pm'' = Some zoo_animal
   \<and> create_ast_from_file zoo_fs ''main.pl'' = Some zoo_main
   \<and> length (filter (\<lambda>r. rel_key_of r = zoo_key) (raw_relationships zoo_ast)) = 3
   \<and> length (filter (\<lambda>r. rel_key_of r = zoo_key) (relationships (transform_perl_ast zoo_ast))) = 1
   \<and> list_all (\<lambda>r. rel_key_of r = zoo_key \<longrightarrow>
          map_of (properties r) ''call_count'' = Some (PInt 3)
          \<and> (\<exists>vs. map_of (properties r) ''call_patterns'' = Some (PJsonList vs) \<and> distinct vs
                \<and> set vs = {PStr ''Animal::speak('', PStr ''speak(''})
          \<and> (\<exists>vs. map_of (properties r) ''call_types'' = Some (PJsonList vs) \<and> distinct vs
                \<and> set vs = {PStr ''package_function'', PStr ''direct_function''}))
        (relationships (transform_perl_ast zoo_ast))"
proof -
  let ?raw = "raw_relationships zoo_ast"
  let ?out = "relationships (transform_perl_ast zoo_ast)"
  have a: "create_ast_from_file zoo_fs ''lib/Animal.pm'' = Some zoo_animal" by code_simp
  have b: "create_ast_from_file zoo_fs ''main.pl'' = Some zoo_main" by code_simp
  have c: "length (filter (\<lambda>r. rel_key_of r = zoo_key) ?raw) = 3" by code_simp
  have d: "length (filter (\<lambda>r. rel_key_of r = zoo_key) ?out) = 1" by code_simp
  have n: "collapsed ?raw zoo_key = 3" using c by (simp add: collapsed_def)
  have p: "observed ''call_pattern'' ?raw zoo_key = {PStr ''Animal::speak('', PStr ''speak(''}"
    by code_simp
  have t: "observed ''call_type'' ?raw zoo_key = {PStr ''package_function'', PStr ''direct_function''}"
    by code_simp
  note T = C3_aggregation_invariant[of zoo_ast]
  have "\<And>r. r \<in> set ?out \<Longrightarrow> rel_key_of r = zoo_key \<Longrightarrow>
          map_of (properties r) ''call_count'' = Some (PInt 3)
          \<and> (\<exists>vs. map_of (properties r) ''call_patterns'' = Some (PJsonList vs) \<and> distinct vs
                \<and> set vs = {PStr ''Animal::speak('', PStr ''speak(''})
          \<and> (\<exists>vs. map_of (properties r) ''call_types'' = Some (PJsonList vs) \<and> distinct vs
                \<and> set vs = {PStr ''package_function'', PStr ''direct_function''})"
  proof -
    fix r assume r: "r \<in> set ?out" "rel_key_of r = zoo_key"
    from T r(1) have
      "map_of (properties r) ''call_count'' = Some (PInt (int (collapsed ?raw (rel_key_of r))))
         \<and> (observed ''call_pattern'' ?raw (rel_key_of r) \<noteq> {} \<longrightarrow>
              (\<exists>vs. map_of (properties r) ''call_patterns'' = Some (PJsonList vs) \<and> distinct vs
                 \<and> set vs = observed ''call_pattern'' ?raw (rel_key_of r)))
         \<and> (observed ''call_type'' ?raw (rel_key_of r) \<noteq> {} \<longrightarrow>
              (\<exists>vs. map_of (properties r) ''call_types'' = Some (PJsonList vs) \<and> distinct vs
                 \<and> set vs = observed ''call_type'' ?raw (rel_key_of r)))"
      by blast
    then show "map_of (properties r) ''call_count'' = Some (PInt 3)
          \<and> (\<exists>vs. map_of (properties r) ''call_patterns'' = Some (PJsonList vs) \<and> distinct vs
                \<and> set vs = {PStr ''Animal::speak('', PStr ''speak(''})
          \<and> (\<exists>vs. map_of (properties r) ''call_types'' = Some (PJsonList vs) \<and> distinct vs
                \<and> set vs = {PStr ''package_function'', PStr ''direct_function''})"
      unfolding r(2) n p t by simp
  qed
  then have e: "list_all (\<lambda>r. rel_key_of r = zoo_key \<longrightarrow>
          map_of (properties r) ''call_count'' = Some (PInt 3)
          \<and> (\<exists>vs. map_of (properties r) ''call_patterns'' = Some (PJsonList vs) \<and> distinct vs
                \<and> set vs = {PStr ''Animal::speak('', PStr ''speak(''})
          \<and> (\<exists>vs. map_of (properties r) ''call_types'' = Some (PJsonList vs) \<and> distinct vs
                \<and> set vs = {PStr ''package_function'', PStr ''direct_function''})) ?out"
    unfolding list_all_iff by blast
  from a b c d e show ?thesis by - (intro conjI; assumption)
qed

subsection \<open>Caller nodes of call edges\<close>

text \<open>
  C9 at a call site in the global scope.  The three calls of \<open>main.pl\<close> are resolved to
  \<open>Animal::speak\<close> and become one relationship of type \<open>CALLS_METHOD\<close>; its \<open>from_id\<close> is
  \<open>script_package_file_main_pl_global\<close>, and no emitted node has that id: the source
  emits script nodes for packages only, never for the global scope of a file.
\<close>

theorem C9_global_caller_has_no_node:
  "create_ast_from_file zoo_fs ''main.pl'' = Some zoo_main
   \<and> cross_file_calls (analyze_cross_file_calls [zoo_animal, zoo_main])
       = [zoo_call ''Animal::speak('' ''package_function'', zoo_call ''speak('' ''direct_function'',
          zoo_call ''speak('' ''direct_function'']
   \<and> map from_id (filter (\<lambda>r. rel_type r = ''CALLS_METHOD'')
         (relationships (transform_perl_ast zoo_ast)))
       = [''script_package_file_main_pl_global'']
   \<and> map node_id (nodes (transform_perl_ast zoo_ast))
       = [''file_lib_Animal_pm'', ''package_file_lib_Animal_pm_Animal'',
          ''method_package_file_lib_Animal_pm_Animal_speak'',
          ''script_package_file_lib_Animal_pm_Animal'', ''file_main_pl'',
          ''use_Animal_file_main_pl'']
   \<and> ''script_package_file_main_pl_global''
        \<notin> set (map node_id (nodes (transform_perl_ast zoo_ast)))"
proof -
  have a: "create_ast_from_file zoo_fs ''main.pl'' = Some zoo_main" by code_simp
  have b: "cross_file_calls (analyze_cross_file_calls [zoo_animal, zoo_main])
       = [zoo_call ''Animal::speak('' ''package_function'', zoo_call ''speak('' ''direct_function'',
          zoo_call ''speak('' ''direct_function'']" by code_simp
  have c: "map from_id (filter (\<lambda>r. rel_type r = ''CALLS_METHOD'')
         (relationships (transform_perl_ast zoo_ast)))
       = [''script_package_file_main_pl_global'']" by code_simp
  have d: "map node_id (nodes (transform_perl_ast zoo_ast))
       = [''file_lib_Animal_pm'', ''package_file_lib_Animal_pm_Animal'',
          ''method_package_file_lib_Animal_pm_Animal_speak'',
          ''script_package_file_lib_Animal_pm_Animal'', ''file_main_pl'',
          ''use_Animal_file_main_pl'']" by code_simp
  have e: "''script_package_file_main_pl_global''
        \<notin> set (map node_id (nodes (transform_perl_ast zoo_ast)))"
    unfolding d by simp
  from a b c d e show ?thesis by - (intro conjI; assumption)
qed

end
